theory Spec2Isabelle
  imports Complex_Main "HOL-Library.Word"
begin

section \<open>Acadian variant growth model: data model\<close>

text \<open>
  The C++ sources (acdR/src/tree.hpp, tree.cpp, stand.hpp, stand.cpp) compute with
  \<^verbatim>\<open>double\<close>. Here a \<^verbatim>\<open>double\<close> is a \<^typ>\<open>real\<close>: rounding, infinities and NaN are
  not modelled, so every statement below is about the exact arithmetic the code
  approximates. \<^verbatim>\<open>unsigned long\<close> is a 64-bit word, \<^verbatim>\<open>int\<close> keys of the ingrowth
  maps are 32-bit words, other \<^verbatim>\<open>int\<close> values are unbounded integers (no arithmetic
  on them overflows in the functions modelled).

  Division: in HOL \<open>x / 0 = 0\<close>, in C++ a division by zero gives an infinity or NaN.
  The theorems either do not depend on such a quotient or exclude the zero
  denominator by a hypothesis.

  \<^verbatim>\<open>std::pow\<close> is \<open>powr\<close>, which agrees with it for a positive base (and for base 0
  with a positive exponent).
\<close>

datatype error =
    invalid_argument string
  | runtime_error string
  | out_of_range
  | terminate

record CROWN_PARMS =
  a1 :: real
  a2 :: real

text \<open>
  A tree record. The species tables (parameters.cpp) are not part of the sources at
  hand, so what the constructor reads from them is a field of the record:
  \<open>softwood\<close> is \<^verbatim>\<open>species_id.softwood\<close>, \<open>sg\<close> and \<open>shade\<close> are
  \<^verbatim>\<open>_attributes->sg\<close> and \<^verbatim>\<open>_attributes->shade\<close>, \<open>mcw_p\<close>, \<open>lcw_p\<close> and \<open>mort_beta\<close>
  are the coefficient sets the constructor resolved.
\<close>

record TREE =
  plot_id :: "64 word"
  tree_id :: "64 word"
  expand_tree_id :: "64 word"
  spp :: int
  dbh :: real
  ht :: real
  tph :: real
  cr :: real
  Form :: int
  Risk :: int
  ba :: real
  bal :: real
  bal_hw :: real
  bal_sw :: real
  mcw :: real
  lcw :: real
  mca :: real
  hcb :: real
  softwood :: bool
  sg :: real
  shade :: real
  ddbh :: real
  dht :: real
  dhcb :: real
  dtph :: real
  p_survival :: real
  mcw_p :: CROWN_PARMS
  lcw_p :: CROWN_PARMS
  mort_beta :: "real list"

text \<open>
  The stand. Fields \<open>stand_ba\<close> and \<open>stand_tph\<close> are \<^verbatim>\<open>STAND::ba\<close> and
  \<^verbatim>\<open>STAND::tph\<close> (renamed: the tree record has fields of the same names). The three
  \<^verbatim>\<open>std::unordered_map\<close> members are association lists in insertion order; the C++
  iteration order is unspecified, and the results proved below are sums that do not
  depend on it.
\<close>

record STAND =
  Region :: string
  year :: int
  csi :: real
  elevation :: real
  CDEF :: real
  average_sg :: real
  average_sg_10 :: real
  average_height_sw :: real
  average_height_hw :: real
  topht :: real
  ba_sw :: real
  ba_hw :: real
  stand_ba :: real
  stand_tph :: real
  qmd :: real
  n_species :: int
  min_dbh :: real
  max_dbh :: real
  min_dbh_10 :: real
  rd :: real
  rd_10 :: real
  sdi_10 :: real
  sdi :: real
  bf_ba :: real
  ithw_ba :: real
  use_sbw_mod :: bool
  use_hw_mod :: bool
  use_thin_mod :: bool
  use_ingrowth :: bool
  cut_point :: real
  MinDBH :: real
  initialized :: bool
  percent_ba_removed :: real
  ba_pre_thin :: real
  qmd_ratio :: real
  thin_year :: real
  trees :: "TREE list"
  max_tree_id :: "64 word"
  ba_spp :: "(int \<times> real) list"
  ba_grp_spp :: "(int \<times> real) list"
  plot_species_ba :: "(32 word \<times> (int \<times> real) list) list"

definition std_pow :: "real \<Rightarrow> real \<Rightarrow> real" where
  "std_pow x y = x powr y"

section \<open>Stand construction\<close>

text \<open>
  \<^verbatim>\<open>STAND::STAND\<close> (stand.cpp 37-55). The member initialisers run first, then the two
  checks, each throwing \<^verbatim>\<open>std::invalid_argument\<close>. \<open>raw\<close> is the storage the object
  is built in: the members the constructor does not name keep their default member
  initialiser where stand.hpp gives one and whatever \<open>raw\<close> holds otherwise.
\<close>

definition STAND_ctor ::
  "STAND \<Rightarrow> string \<Rightarrow> int \<Rightarrow> real \<Rightarrow> real \<Rightarrow> real \<Rightarrow> bool \<Rightarrow> bool \<Rightarrow> bool \<Rightarrow> int \<Rightarrow> real \<Rightarrow> real
     \<Rightarrow> error + STAND" where
  "STAND_ctor raw t_Region t_year t_csi t_elev t_cdef use_sbw_t use_hw_t use_thin_t
       t_use_ingrowth t_cut_point t_MinDBH =
     (let s = raw\<lparr> Region := t_Region, year := t_year, csi := t_csi, elevation := t_elev,
                    CDEF := t_cdef, use_sbw_mod := use_sbw_t, use_hw_mod := use_hw_t,
                    use_thin_mod := use_thin_t, use_ingrowth := (t_use_ingrowth \<noteq> 0),
                    cut_point := t_cut_point, MinDBH := t_MinDBH,
                    initialized := False, percent_ba_removed := 0, ba_pre_thin := 0,
                    qmd_ratio := 0, thin_year := - 1, trees := [], max_tree_id := 0,
                    ba_spp := [], ba_grp_spp := [], plot_species_ba := [] \<rparr>
      in if Region s \<noteq> ''ME'' \<and> Region s \<noteq> ''NB'' then Inl (invalid_argument ''Invalid Region'')
         else if csi s \<le> 0 then Inl (invalid_argument ''Invalid CSI'')
         else Inr s)"

text \<open>
  The callers (acd_r.cpp 101-114, cl_acd/acd.cpp 155-228) construct the stand, then
  append the tree records to \<^verbatim>\<open>stand.trees\<close>, then grow. An exception of the
  constructor leaves no stand object, so neither later step runs.
\<close>

definition build_stand ::
  "STAND \<Rightarrow> string \<Rightarrow> int \<Rightarrow> real \<Rightarrow> real \<Rightarrow> real \<Rightarrow> bool \<Rightarrow> bool \<Rightarrow> bool \<Rightarrow> int \<Rightarrow> real \<Rightarrow> real
     \<Rightarrow> TREE list \<Rightarrow> error + STAND" where
  "build_stand raw t_Region t_year t_csi t_elev t_cdef use_sbw_t use_hw_t use_thin_t
       t_use_ingrowth t_cut_point t_MinDBH ts =
     (case STAND_ctor raw t_Region t_year t_csi t_elev t_cdef use_sbw_t use_hw_t use_thin_t
             t_use_ingrowth t_cut_point t_MinDBH of
        Inl e \<Rightarrow> Inl e
      | Inr s \<Rightarrow> Inr (s\<lparr> trees := trees s @ ts \<rparr>))"

section \<open>Ingrowth estimate\<close>

datatype INGROWTH_MODEL_TYPE = GNLS | NLME

definition gnls_a :: "real list" where
  "gnls_a = [-0.2116, -0.0255, -0.1396, -0.0054, 0.0433, 0.0409, 0.0]"

definition gnls_b :: "real list" where
  "gnls_b = [3.8982, -0.0257, -0.3668, 0.0002, 0.0216, -0.0514, 0.0]"

definition nlme_a :: "real list" where
  "nlme_a = [-0.08217, 0.1113, -1.2405, -0.2319, 0.03673, -0.7745, -0.1301]"

definition nlme_b :: "real list" where
  "nlme_b = [2.8466, -0.03114, -0.2891, 0.003350, 0.2248, -0.08223, -0.03548]"

text \<open>\<^verbatim>\<open>STAND::ingrowth\<close> (stand.cpp 661-684).\<close>

definition ingrowth :: "STAND \<Rightarrow> INGROWTH_MODEL_TYPE \<Rightarrow> real" where
  "ingrowth s type =
     (let a = (if type = GNLS then gnls_a else nlme_a);
          b = (if type = GNLS then gnls_b else nlme_b);
          link1 = a ! 0 + a ! 1 * stand_ba s + a ! 2 * (ba_hw s / stand_ba s)
                  + a ! 3 * (stand_tph s / 1000) + a ! 4 * csi s + a ! 5 * MinDBH s
                  + a ! 6 * qmd s;
          PI = 1 / (1 + exp (- link1));
          eta = b ! 0 + b ! 1 * stand_ba s + b ! 2 * (ba_hw s / stand_ba s)
                + b ! 3 * (stand_tph s / 1000) + b ! 4 * csi s + b ! 5 * MinDBH s
                + b ! 6 * qmd s;
          IPH = exp eta
      in if cut_point s = 0 then IPH * PI
         else (if PI \<ge> cut_point s then IPH else 0))"

text \<open>
  The two terms of the model as the specification names them: the log-linear rate
  term \<open>exp eta\<close> and the logistic probability of occurrence \<open>PI\<close>, each with the
  coefficient vector of the model variant.
\<close>

definition ingrowth_linear :: "real list \<Rightarrow> STAND \<Rightarrow> real" where
  "ingrowth_linear c s =
     c ! 0 + c ! 1 * stand_ba s + c ! 2 * (ba_hw s / stand_ba s)
     + c ! 3 * (stand_tph s / 1000) + c ! 4 * csi s + c ! 5 * MinDBH s + c ! 6 * qmd s"

definition ingrowth_rate :: "STAND \<Rightarrow> INGROWTH_MODEL_TYPE \<Rightarrow> real" where
  "ingrowth_rate s type =
     exp (ingrowth_linear (case type of GNLS \<Rightarrow> gnls_b | NLME \<Rightarrow> nlme_b) s)"

definition ingrowth_occurrence :: "STAND \<Rightarrow> INGROWTH_MODEL_TYPE \<Rightarrow> real" where
  "ingrowth_occurrence s type =
     1 / (1 + exp (- ingrowth_linear (case type of GNLS \<Rightarrow> gnls_a | NLME \<Rightarrow> nlme_a) s))"

section \<open>Stand density index and relative density\<close>

text \<open>
  \<^verbatim>\<open>STAND::compute_sdi_rd\<close> (stand.cpp 359-397). No statement of the \<^verbatim>\<open>try\<close> block
  throws, so the function always returns. \<open>SDImax_primary_10\<close> and
  \<open>SDImax_primary_all\<close> are the two evaluations of the primary regression,
  \<open>SDImax2\<close> is the fallback regression.
\<close>

definition dbh_range :: "STAND \<Rightarrow> real" where
  "dbh_range s = (if min_dbh s < max_dbh s then max_dbh s - min_dbh s else 0)"

definition dbh_10_range :: "STAND \<Rightarrow> real" where
  "dbh_10_range s = (if min_dbh_10 s < max_dbh s then max_dbh s - min_dbh_10 s else 0)"

definition SDImax_primary_10 :: "STAND \<Rightarrow> real" where
  "SDImax_primary_10 s =
     475.2079 - 1.5908 * (ba_hw s / stand_ba s) - 236.9051 * ln (max (average_sg_10 s) 0.80)
     + 50.3299 * sqrt (dbh_10_range s) + 13.5202 * real_of_int (n_species s)
     + 0.0685 * elevation s - 2.8537 * sqrt (elevation s) + 222.7836 * (1 / csi s)"

definition SDImax_primary_all :: "STAND \<Rightarrow> real" where
  "SDImax_primary_all s =
     475.2079 - 1.5908 * (ba_hw s / stand_ba s) - 236.9051 * ln (max (average_sg s) 0.80)
     + 50.3299 * sqrt (dbh_range s) + 13.5202 * real_of_int (n_species s)
     + 0.0685 * elevation s - 2.8537 * sqrt (elevation s) + 222.7836 * (1 / csi s)"

definition SDImax2 :: "STAND \<Rightarrow> real" where
  "SDImax2 s = 1347.445 - 1003.870 * max (average_sg s) 0.80"

definition compute_sdi_rd :: "STAND \<Rightarrow> STAND" where
  "compute_sdi_rd s0 =
     (let s1 = s0\<lparr> rd := 0 \<rparr>;
          SDImax = SDImax_primary_10 s1;
          SDImax = (if SDImax > 0 then SDImax2 s1 else SDImax);
          s2 = s1\<lparr> rd_10 := sdi_10 s1 / SDImax \<rparr>;
          SDImax_all = SDImax_primary_all s2;
          SDImax_all = (if SDImax_all > 0 then SDImax_all else SDImax2 s2)
      in s2\<lparr> rd := sdi s2 / SDImax_all \<rparr>)"


section \<open>Tree: derived attributes\<close>

text \<open>\<^verbatim>\<open>TREE::reset\<close> (tree.cpp 97-104).\<close>

definition reset :: "TREE \<Rightarrow> TREE" where
  "reset t = t\<lparr> ddbh := 0, dht := 0, dhcb := 0, dtph := 0, p_survival := 1 \<rparr>"

text \<open>\<^verbatim>\<open>TREE::compute_mcw\<close>, \<^verbatim>\<open>compute_lcw\<close>, \<^verbatim>\<open>compute_mca\<close> (tree.cpp 136-171).\<close>

definition compute_mcw :: "TREE \<Rightarrow> TREE" where
  "compute_mcw t = t\<lparr> mcw := a1 (mcw_p t) * std_pow (dbh t) (a2 (mcw_p t)) \<rparr>"

definition compute_lcw :: "TREE \<Rightarrow> TREE" where
  "compute_lcw t = t\<lparr> lcw := mcw t / (a1 (lcw_p t) * std_pow (dbh t) (a2 (lcw_p t))) \<rparr>"

definition pi_const :: real where
  "pi_const = 3.14159265358979323846"

definition compute_mca :: "TREE \<Rightarrow> TREE" where
  "compute_mca t = t\<lparr> mca := 100 * ((pi_const * (mcw t * mcw t / 4)) / 10000) * tph t \<rparr>"

text \<open>\<^verbatim>\<open>TREE::compute_attributes\<close> (tree.cpp 124-130).\<close>

definition compute_attributes :: "TREE \<Rightarrow> TREE" where
  "compute_attributes t =
     compute_mca (compute_lcw (compute_mcw (t\<lparr> ba := dbh t * dbh t * 0.00007854 * tph t \<rparr>)))"

section \<open>Tree: survival\<close>

text \<open>
  Conversion of a \<^verbatim>\<open>double\<close> to \<^verbatim>\<open>int\<close> (the stand keeps \<^verbatim>\<open>thin_year\<close> as a
  \<^verbatim>\<open>double\<close> and passes it to \<^verbatim>\<open>int\<close> parameters): truncation toward zero.
\<close>

definition double_to_int :: "real \<Rightarrow> int" where
  "double_to_int x = (if x \<ge> 0 then \<lfloor>x\<rfloor> else \<lceil>x\<rceil>)"

text \<open>
  \<^verbatim>\<open>TREE::surv_sbw\<close> (tree.cpp 495-580). \<open>surv_sbw_coef\<close> is the assignment of
  \<^verbatim>\<open>b1 .. b8\<close> by region and species.
\<close>

definition surv_sbw_coef :: "string \<Rightarrow> int \<Rightarrow> real list" where
  "surv_sbw_coef Rgn sp =
     (if Rgn = ''ME'' then
        (if sp = 12 then [-6.5208, -0.4866, -0.0355, 0.0316, 1.5087, -0.0175, 0.0274, 0.0040]
         else if sp = 97 \<or> sp = 95 then
           [-6.5208, -0.4866, -0.1231, 0.0316, 1.5087, -0.0175, 0.0274, 0.0056]
         else if sp = 94 then
           [-6.5208, -0.4866, -0.1755, 0.0316, 1.5087, -0.0175, 0.0274, 0.0207]
         else [-6.5208, -0.4866, 0, 0.0316, 0, -0.0175, 0.0274, 0])
      else if Rgn = ''NB'' then
        (if sp = 12 then [-6.8310, 0, -0.2285, 0.2025, 2.1703, 0, 0, 0.0029]
         else if sp = 97 \<or> sp = 95 then [-6.8310, 0, -0.2285, 0.2025, 2.0809, 0, 0, 0.0101]
         else if sp = 94 then [-6.8310, 0, -0.2285, 0.2025, 1.5802, 0, 0, 0.0021]
         else [-6.8310, 0, 0, 0.2025, 0, 0, 0, 0])
      else [0, 0, 0, 0, 0, 0, 0, 0])"

definition surv_sbw :: "TREE \<Rightarrow> string \<Rightarrow> real \<Rightarrow> real \<Rightarrow> real \<Rightarrow> real" where
  "surv_sbw t Rgn avg_height_hw avg_height_sw cdef =
     (let surv_sbw_modifier =
        (if (spp t = 12 \<or> spp t = 94 \<or> spp t = 95 \<or> spp t = 97) \<and> cdef \<ge> 0 then
           (let b = surv_sbw_coef Rgn (spp t);
                x = b ! 0 + b ! 1 * cr t + b ! 2 * dbh t + b ! 3 * avg_height_sw
                    + b ! 4 * (ht t / avg_height_sw) + b ! 5 * bal_sw t + b ! 6 * bal_hw t;
                mort_a = 1 - exp (- exp x);
                mort_b = 1 - exp (- exp (x + b ! 7 * cdef))
            in if mort_a > 0 then (1 - mort_b) / (1 - mort_a) else 1)
         else 1)
      in if surv_sbw_modifier \<le> 1 then surv_sbw_modifier else 1)"

text \<open>\<^verbatim>\<open>TREE::surv_hw\<close> (tree.cpp 584-656).\<close>

definition surv_hw :: "TREE \<Rightarrow> real \<Rightarrow> real" where
  "surv_hw t sba =
     (let surv_hw_modifier =
        (if (Form t \<ge> 1 \<and> Form t \<le> 8) \<and>
            (spp t = 833 \<or> spp t = 371 \<or> spp t = 316 \<or> spp t = 375 \<or> spp t = 746) then
           (let b0 = 15.1991; b1 = -0.1509; b2 = -0.1232; b3 = -1.4053;
                b5 = (if Form t = 1 then 3.3082 else if Form t = 2 then 2.2518 else 0);
                b4 = (if spp t = 746 then -2.7907 else if spp t = 316 then -3.9809
                      else if spp t = 833 then -0.7937 else if spp t = 371 then 5.2531
                      else 3.3082);
                b6 = (if spp t = 746 then 0.0791 else if spp t = 316 then 0.8343
                      else if spp t = 833 then 0.8944 else if spp t = 371 then 0.1528
                      else 0);
                x = b0 + b1 * dbh t + b2 * bal t + b3 * sqrt sba + b4 + b6 * dbh t;
                mort_a = exp x / (1 + exp x);
                mort_b = exp (x + b5) / (1 + exp (x + b5))
            in if mort_a \<noteq> 0 then mort_b / mort_a else 1)
         else 1)
      in if surv_hw_modifier \<le> 1 then surv_hw_modifier else 1)"

text \<open>
  \<^verbatim>\<open>TREE::surv_thin\<close> (tree.cpp 660-702). It returns the reciprocal of the hazard
  ratio, capped at 1.
\<close>

definition surv_thin :: "TREE \<Rightarrow> real \<Rightarrow> real \<Rightarrow> real \<Rightarrow> int \<Rightarrow> int \<Rightarrow> real" where
  "surv_thin t pct_ba_removed ba_pre qmd_rat thin_yr yr =
     (let surv_thin_modifier =
        (if thin_yr \<ge> 0 \<and> thin_yr \<le> yr \<and> pct_ba_removed > 0 \<and> qmd_rat > 0 \<and> ba_pre > 0 then
           (let time_since_thinning = yr - thin_yr in
            if spp t = 12 then
              1 + (exp (1.7414 + (7.0805 / (((100 * pct_ba_removed + ba_pre) * qmd_rat) + 0.01)))
                   * std_pow 0.6677 (real_of_int time_since_thinning)
                   * std_pow (real_of_int time_since_thinning) 0.8474)
            else if spp t = 97 then
              1 + (exp (10.5057 + (- 650.8260 / (((100 * pct_ba_removed) + ba_pre) + 0.01)))
                   * std_pow 0.6948 (real_of_int time_since_thinning)
                   * std_pow (real_of_int time_since_thinning) 0.6429)
            else 1)
         else 1);
          x = 1 / surv_thin_modifier
      in if x \<le> 1 then x else 1)"

text \<open>
  \<^verbatim>\<open>TREE::survival_prob\<close> (tree.cpp 455-487). \<open>base_survival\<close> is its first
  assignment, the complementary log-log model without modifiers.
\<close>

definition base_survival :: "TREE \<Rightarrow> real" where
  "base_survival t =
     1 - exp (- exp (- (mort_beta t ! 0)
                     + mort_beta t ! 1 * (std_pow (dbh t) (mort_beta t ! 2) / (bal t + 1))))"

definition survival_prob ::
  "TREE \<Rightarrow> string \<Rightarrow> real \<Rightarrow> real \<Rightarrow> real \<Rightarrow> real \<Rightarrow> real \<Rightarrow> real \<Rightarrow> int \<Rightarrow> int
     \<Rightarrow> real \<Rightarrow> real \<Rightarrow> real \<Rightarrow> bool \<Rightarrow> bool \<Rightarrow> bool \<Rightarrow> TREE" where
  "survival_prob t Rgn site sba sqmd pct_ba_removed ba_pre qmd_rat thin_yr yr
       avg_height_hw avg_height_sw cdef sbw_on hw_on thin_on =
     (let p = base_survival t;
          sbw_modifier = (if sbw_on then surv_sbw t Rgn avg_height_hw avg_height_sw cdef else 1);
          hw_modifier = (if hw_on then surv_hw t sba else 1);
          thin_modifier = (if thin_on then surv_thin t pct_ba_removed ba_pre qmd_rat thin_yr yr
                           else 1)
      in t\<lparr> p_survival := p * (sbw_modifier * (1 / thin_modifier) * hw_modifier) \<rparr>)"

text \<open>\<^verbatim>\<open>TREE::apply_growth_mortality\<close> (tree.cpp 706-730).\<close>

definition apply_growth_mortality :: "TREE \<Rightarrow> TREE" where
  "apply_growth_mortality t0 =
     (let t1 = t0\<lparr> dbh := dbh t0 + ddbh t0 \<rparr>;
          t2 = t1\<lparr> ht := ht t1 + dht t1 \<rparr>;
          t3 = t2\<lparr> hcb := hcb t2 + dhcb t2 \<rparr>;
          t4 = (if hcb t3 > ht t3 then t3\<lparr> hcb := ht t3 \<rparr> else t3);
          t5 = t4\<lparr> cr := (ht t4 - hcb t4) / ht t4 \<rparr>;
          t6 = t5\<lparr> tph := tph t5 - (if dtph t5 \<le> tph t5 then dtph t5 else tph t5) \<rparr>;
          t7 = t6\<lparr> ba := dbh t6 * dbh t6 * 0.00007854 * tph t6 \<rparr>
      in reset (compute_mca (compute_lcw (compute_mcw t7))))"

section \<open>Stand: mortality\<close>

text \<open>\<^verbatim>\<open>STAND::mort_sbw\<close> (stand.cpp 726-769).\<close>

definition mort_sbw :: "STAND \<Rightarrow> real" where
  "mort_sbw s =
     (let b1 = (if Region s = ''ME'' then -2.6380 else if Region s = ''NB'' then -3.0893
                else -2.6380);
          b2 = (if Region s = ''ME'' then 0.0114 else if Region s = ''NB'' then 0.0071
                else 0.0114);
          b3 = (if Region s = ''ME'' then -0.0076 else if Region s = ''NB'' then -0.0037
                else -0.0076);
          b4 = (if Region s = ''ME'' then 0.0074 else if Region s = ''NB'' then 0.0000
                else 0.0074);
          VOL = (topht s / 2) * stand_ba s;
          aa = (1 / (1 + exp (- b1))) * (1 / (1 + exp (- (b3 * VOL))));
          bb = (1 / (1 + exp (- b1)))
               * (1 / (1 + exp (- (b2 * CDEF s * bf_ba s + b3 * VOL + b4 * CDEF s))))
      in if CDEF s < 0 then 1 else (if aa > 0 then bb / aa else 1))"

text \<open>\<^verbatim>\<open>STAND::mort_thin\<close> (stand.cpp 773-803).\<close>

definition mort_thin :: "STAND \<Rightarrow> real" where
  "mort_thin s =
     (if thin_year s \<ge> 0 \<and> thin_year s \<le> real_of_int (year s) \<and> percent_ba_removed s > 0
         \<and> qmd_ratio s > 0 \<and> ba_pre_thin s > 0 then
        (let time_since_thinning = double_to_int (real_of_int (year s) - thin_year s) in
         1 + exp (8.3385 + (- 601.3096 / ((100 * percent_ba_removed s + ba_pre_thin s) + 0.01)))
             * std_pow 0.5507 (real_of_int time_since_thinning)
             * std_pow (real_of_int time_since_thinning) 1.5798)
      else 1)"

text \<open>\<^verbatim>\<open>STAND::compute_survival_prob\<close> (stand.cpp 806-816).\<close>

definition compute_survival_prob :: "STAND \<Rightarrow> STAND" where
  "compute_survival_prob s =
     s\<lparr> trees := map (\<lambda>t. survival_prob t (Region s) (csi s) (stand_ba s) (qmd s)
                          (percent_ba_removed s) (ba_pre_thin s) (qmd_ratio s)
                          (double_to_int (thin_year s)) (year s)
                          (average_height_hw s) (average_height_sw s) (CDEF s)
                          (use_sbw_mod s) (use_hw_mod s) (use_thin_mod s)) (trees s) \<rparr>"

text \<open>\<^verbatim>\<open>STAND::survival\<close> (stand.cpp 828-852).\<close>

definition survival :: "STAND \<Rightarrow> STAND" where
  "survival s0 =
     (let sbw_modifier = (if use_sbw_mod s0 then mort_sbw s0 else 1);
          thin_modifier = (if use_thin_mod s0 then mort_thin s0 else 1);
          s1 = compute_survival_prob s0
      in s1\<lparr> trees := map (\<lambda>t. t\<lparr> dtph := tph t * (1 - p_survival t) * sbw_modifier
                                          * thin_modifier \<rparr>) (trees s1) \<rparr>)"

text \<open>\<^verbatim>\<open>STAND::apply_growth_mortality\<close> (stand.cpp 819-825).\<close>

definition stand_apply_growth_mortality :: "STAND \<Rightarrow> STAND" where
  "stand_apply_growth_mortality s = s\<lparr> trees := map apply_growth_mortality (trees s) \<rparr>"

section \<open>Tree construction\<close>

text \<open>
  \<^verbatim>\<open>TREE::TREE\<close> (tree.cpp 16-90). The species tables are not in the sources, so they
  are the parameter \<open>tab\<close>: for a species code, a record holding what the constructor
  takes from the tables (\<open>softwood\<close>, \<open>sg\<close>, \<open>shade\<close>, \<open>mcw_p\<close>, \<open>lcw_p\<close>,
  \<open>mort_beta\<close>), or \<open>None\<close> when the code resolves neither in the species table nor
  through the crosswalk; then \<^verbatim>\<open>.at()\<close> throws \<^verbatim>\<open>std::out_of_range\<close>.
\<close>

definition TREE_ctor ::
  "(int \<Rightarrow> TREE option) \<Rightarrow> 64 word \<Rightarrow> 64 word \<Rightarrow> int \<Rightarrow> real \<Rightarrow> real \<Rightarrow> real \<Rightarrow> real \<Rightarrow> int \<Rightarrow> int
     \<Rightarrow> error + TREE" where
  "TREE_ctor tab plot_id_t tree_id_t spp_t dbh_t ht_t tph_t cr_t form_t risk_t =
     (case tab spp_t of
        None \<Rightarrow> Inl out_of_range
      | Some tmpl \<Rightarrow>
          Inr (compute_attributes
                (tmpl\<lparr> plot_id := plot_id_t, tree_id := tree_id_t, expand_tree_id := 0,
                        spp := spp_t, dbh := dbh_t, ht := ht_t, tph := tph_t, cr := cr_t,
                        Form := form_t, Risk := risk_t, bal := 0, bal_hw := 0, bal_sw := 0,
                        hcb := (if cr_t > 0 \<and> ht_t > 0 then (1 - cr_t) * ht_t else 0),
                        ddbh := 0, dht := 0, dhcb := 0, dtph := 0, p_survival := 1 \<rparr>)))"

section \<open>Ingrowth allocation\<close>

text \<open>
  \<^verbatim>\<open>std::unordered_map<K,double>\<close> as an association list with distinct keys.
  \<open>alist_add k v m\<close> is \<^verbatim>\<open>m[k] += v\<close>, \<open>alist_touch k m\<close> is what reading \<^verbatim>\<open>m[k]\<close>
  does to the map (a missing key is inserted with value 0), \<open>alist_get m k\<close> is the
  value read.
\<close>

fun alist_add :: "'k \<Rightarrow> real \<Rightarrow> ('k \<times> real) list \<Rightarrow> ('k \<times> real) list" where
  "alist_add k v [] = [(k, v)]"
| "alist_add k v ((k', w) # m) =
     (if k = k' then (k', w + v) # m else (k', w) # alist_add k v m)"

definition alist_touch :: "'k \<Rightarrow> ('k \<times> real) list \<Rightarrow> ('k \<times> real) list" where
  "alist_touch k m = (case map_of m k of None \<Rightarrow> m @ [(k, 0)] | Some v \<Rightarrow> m)"

definition alist_get :: "('k \<times> real) list \<Rightarrow> 'k \<Rightarrow> real" where
  "alist_get m k = (case map_of m k of None \<Rightarrow> 0 | Some v \<Rightarrow> v)"

text \<open>\<open>plot_add p k v ps\<close> is \<^verbatim>\<open>plot_species_ba[p][k] += v\<close>.\<close>

fun plot_add ::
  "'p \<Rightarrow> int \<Rightarrow> real \<Rightarrow> ('p \<times> (int \<times> real) list) list \<Rightarrow> ('p \<times> (int \<times> real) list) list" where
  "plot_add p k v [] = [(p, [(k, v)])]"
| "plot_add p k v ((p', m) # ps) =
     (if p = p' then (p', alist_add k v m) # ps else (p', m) # plot_add p k v ps)"

text \<open>The species group cross-walk (stand.cpp 519-535).\<close>

definition cross_walk :: "(int \<times> int) list" where
  "cross_walk =
     [(531, 531), (746, 746), (318, 318), (241, 241), (379, 379), (375, 379), (371, 379),
      (12, 12), (316, 316), (97, 97), (95, 97), (94, 97), (129, 129), (9990, 9990),
      (9991, 9991)]"

text \<open>
  \<^verbatim>\<open>STAND::build_ba_spp_map\<close> (stand.cpp 539-556). The key of \<^verbatim>\<open>plot_species_ba\<close> is an
  \<^verbatim>\<open>int\<close>: the \<^verbatim>\<open>unsigned long\<close> plot id is converted to it.
\<close>

definition build_step :: "STAND \<Rightarrow> TREE \<Rightarrow> STAND" where
  "build_step s t =
     (case map_of cross_walk (spp t) of
        Some g \<Rightarrow>
          s\<lparr> ba_spp := alist_add (spp t) (ba t) (ba_spp s),
             ba_grp_spp := alist_add g (ba t) (ba_grp_spp s),
             plot_species_ba := plot_add (ucast (plot_id t)) (spp t) (ba t) (plot_species_ba s) \<rparr>
      | None \<Rightarrow>
          (let k = (if softwood t then 9991 else 9990) in
           s\<lparr> ba_spp := alist_add k (ba t) (ba_spp s),
              ba_grp_spp := alist_add k (ba t) (ba_grp_spp s),
              plot_species_ba := plot_add (ucast (plot_id t)) k (ba t) (plot_species_ba s) \<rparr>))"

definition build_ba_spp_map :: "STAND \<Rightarrow> STAND" where
  "build_ba_spp_map s = foldl build_step s (trees s)"

text \<open>\<^verbatim>\<open>STAND::ingrowth_composition\<close> (stand.cpp 559-656): the coefficients.\<close>

definition ingrowth_b :: "real list" where
  "ingrowth_b =
     [-2.5645, 0.0020, 2.6624, -0.0010, -0.0127,
      -3.0291, 0.0027, 2.7779, 0.0211, 0.0221,
      -0.6566, 0.0123, 1.7669, -0.0421, -0.0283,
      -1.2500, -0.0132, 2.0470, -0.0514, 0.0351,
      -5.1074, -0.0117, 3.8817, 0.0501, 0.0726,
      -2.9832, -0.0020, 2.4837, 0.0673, -0.0167,
      -4.7182, 0.0070, 3.2269, 0.1000, 0.0188]"

text \<open>The body of the first loop: the allocation share of one species group.\<close>

definition group_percent :: "STAND \<Rightarrow> int \<Rightarrow> real \<Rightarrow> real" where
  "group_percent s grp sba =
     (let b = ingrowth_b;
          pba = sba / stand_ba s;
          lin = (\<lambda>j. b ! j + b ! (j + 1) * stand_ba s + b ! (j + 2) * pba + b ! (j + 3) * csi s
                      + b ! (j + 4) * MinDBH s);
          percent =
            (if grp = 379 \<or> grp = 375 \<or> grp = 371 then lin 0
             else if grp = 12 then lin 5
             else if grp = 316 then lin 10
             else if grp = 97 \<or> grp = 95 \<or> grp = 94 then lin 15
             else if grp = 129 then lin 20
             else if grp = 9990 \<or> grp = 746 \<or> grp = 531 \<or> grp = 318 then lin 25
             else if grp = 9991 then lin 30
             else 0)
      in 1 / (1 + exp (- percent)))"

fun group_loop ::
  "STAND \<Rightarrow> (int \<times> real) list \<Rightarrow> (int \<times> real) list \<times> real \<Rightarrow> (int \<times> real) list \<times> real" where
  "group_loop s [] acc = acc"
| "group_loop s ((grp, sba) # m) acc =
     (case acc of (species_group_percent, total_percent) \<Rightarrow>
        group_loop s m (alist_add grp (group_percent s grp sba) species_group_percent,
                        total_percent + group_percent s grp sba))"

text \<open>The second loop: each share divided by the total, then multiplied by \<open>IPH\<close>.\<close>

definition normalize_percent :: "real \<Rightarrow> real \<Rightarrow> (int \<times> real) list \<Rightarrow> (int \<times> real) list" where
  "normalize_percent total_percent IPH m = map (\<lambda>(grp, sgp). (grp, sgp / total_percent * IPH)) m"

text \<open>
  The inner loop of the third loop, over the plots, for the species \<open>k\<close> with basal
  area \<open>sba\<close> and allocation \<open>spp_ingrowth\<close>. Its state is the list of new records and
  \<^verbatim>\<open>max_tree_id\<close>; it returns the plot map as reading \<^verbatim>\<open>psba[spp]\<close> leaves it. The
  \<^verbatim>\<open>int\<close> plot key is converted back to \<^verbatim>\<open>unsigned long\<close> for the new record.
\<close>

fun plot_loop ::
  "(int \<Rightarrow> TREE option) \<Rightarrow> real \<Rightarrow> int \<Rightarrow> real \<Rightarrow> real \<Rightarrow> (32 word \<times> (int \<times> real) list) list
     \<Rightarrow> TREE list \<times> 64 word
     \<Rightarrow> error + ((32 word \<times> (int \<times> real) list) list \<times> TREE list \<times> 64 word)" where
  "plot_loop tab mindbh k sba spp_ingrowth [] st = Inr ([], st)"
| "plot_loop tab mindbh k sba spp_ingrowth ((plot, psba) # ps) st =
     (case st of (ts, mx) \<Rightarrow>
        (let psba' = alist_touch k psba;
             plot_spp_percent = alist_get psba' k / sba
         in if plot_spp_percent > 0 then
              (case TREE_ctor tab (scast plot) (mx + 1) k mindbh 0
                      (spp_ingrowth * plot_spp_percent) 0 0 0 of
                 Inl e \<Rightarrow> Inl e
               | Inr new_tree \<Rightarrow>
                   (case plot_loop tab mindbh k sba spp_ingrowth ps (ts @ [new_tree], mx + 1) of
                      Inl e \<Rightarrow> Inl e
                    | Inr (ps', st') \<Rightarrow> Inr ((plot, psba') # ps', st')))
            else
              (case plot_loop tab mindbh k sba spp_ingrowth ps (ts, mx) of
                 Inl e \<Rightarrow> Inl e
               | Inr (ps', st') \<Rightarrow> Inr ((plot, psba') # ps', st'))))"

text \<open>The third loop, over the species of \<^verbatim>\<open>ba_spp\<close>.\<close>

fun species_loop ::
  "(int \<Rightarrow> TREE option) \<Rightarrow> real \<Rightarrow> (int \<times> real) list \<Rightarrow> (int \<times> real) list
     \<Rightarrow> (int \<times> real) list \<times> (32 word \<times> (int \<times> real) list) list \<times> TREE list \<times> 64 word
     \<Rightarrow> error + ((int \<times> real) list \<times> (32 word \<times> (int \<times> real) list) list \<times> TREE list \<times> 64 word)"
  where
  "species_loop tab mindbh sgp [] st = Inr st"
| "species_loop tab mindbh sgp ((k, sba) # m) st =
     (case st of (grp, plots, new) \<Rightarrow>
        (case map_of cross_walk k of
           None \<Rightarrow> Inl out_of_range
         | Some g \<Rightarrow>
             (let grp' = alist_touch g grp;
                  spp_ingrowth = alist_get sgp g * sba / alist_get grp' g
              in case plot_loop tab mindbh k sba spp_ingrowth plots new of
                   Inl e \<Rightarrow> Inl e
                 | Inr (plots', new') \<Rightarrow> species_loop tab mindbh sgp m (grp', plots', new'))))"

definition ingrowth_composition :: "(int \<Rightarrow> TREE option) \<Rightarrow> STAND \<Rightarrow> real \<Rightarrow> error + STAND" where
  "ingrowth_composition tab s IPH =
     (case group_loop s (ba_grp_spp s) ([], 0) of
        (species_group_percent, total_percent) \<Rightarrow>
          (case species_loop tab (MinDBH s)
                  (normalize_percent total_percent IPH species_group_percent) (ba_spp s)
                  (ba_grp_spp s, plot_species_ba s, trees s, max_tree_id s) of
             Inl e \<Rightarrow> Inl e
           | Inr (grp, plots, ts, mx) \<Rightarrow>
               Inr (s\<lparr> ba_grp_spp := grp, plot_species_ba := plots, trees := ts,
                       max_tree_id := mx \<rparr>)))"

section \<open>Tree-list scaling\<close>

text \<open>\<^verbatim>\<open>std::trunc\<close>: rounding toward zero.\<close>

definition std_trunc :: "real \<Rightarrow> real" where
  "std_trunc x = real_of_int (if x \<ge> 0 then \<lfloor>x\<rfloor> else \<lceil>x\<rceil>)"

text \<open>
  The random generator of \<^verbatim>\<open>expand_tree_list\<close> is a default-seeded
  \<^verbatim>\<open>std::default_random_engine\<close> with a uniform distribution on [-0.005, 0.005): a
  fixed sequence \<open>jit\<close> of offsets, of which \<open>gen\<close> counts how many have been drawn.
  \<open>perturb\<close> is the jitter of one new record (stand.cpp 427-428 and 440-441): the
  diameter always, the height only when it is positive.
\<close>

definition perturb :: "(nat \<Rightarrow> real) \<Rightarrow> nat \<Rightarrow> TREE \<Rightarrow> TREE \<times> nat" where
  "perturb jit gen t0 =
     (let t1 = t0\<lparr> dbh := dbh t0 + jit gen \<rparr>;
          gen1 = gen + 1
      in if ht t1 > 0 then (t1\<lparr> ht := ht t1 + jit gen1 \<rparr>, gen1 + 1)
         else (t1\<lparr> ht := ht t1 + 0 \<rparr>, gen1))"

text \<open>
  The inner \<^verbatim>\<open>for\<close> loop (stand.cpp 423-434), which appends the copies that carry the
  threshold density. \<open>j\<close> is the \<^verbatim>\<open>size_t\<close> counter, stored in a record as a 64-bit
  word.
\<close>

function copies_loop ::
  "(nat \<Rightarrow> real) \<Rightarrow> real \<Rightarrow> real \<Rightarrow> nat \<Rightarrow> nat \<Rightarrow> TREE list \<times> nat \<times> real
     \<Rightarrow> nat \<times> TREE list \<times> nat \<times> real" where
  "copies_loop jit threshold n_new_trees i j st =
     (case st of (ts, gen, cum_tph) \<Rightarrow>
        if real j < n_new_trees then
          (case perturb jit gen ((ts ! i)\<lparr> expand_tree_id := of_nat (j + 1) \<rparr>) of
             (new_tree, gen') \<Rightarrow>
               copies_loop jit threshold n_new_trees i (j + 1)
                 (ts @ [compute_attributes (new_tree\<lparr> tph := threshold \<rparr>)], gen',
                  cum_tph + threshold))
        else (j, ts, gen, cum_tph))"
  by pat_completeness auto
termination
  by (relation "measure (\<lambda>(jit, threshold, n_new_trees, i, j, st). nat \<lceil>n_new_trees\<rceil> - j)")
     (auto simp: zless_nat_eq_int_zless less_ceiling_iff intro!: diff_less_mono2)

text \<open>The equation of the loop is unfolded by hand where a proof needs it.\<close>

declare copies_loop.simps [simp del]

text \<open>
  The body of the outer loop for index \<open>i\<close> (stand.cpp 416-452): the copies, the
  record for the remainder, then the original record itself.
\<close>

definition expand_one :: "(nat \<Rightarrow> real) \<Rightarrow> real \<Rightarrow> TREE list \<times> nat \<Rightarrow> nat \<Rightarrow> TREE list \<times> nat" where
  "expand_one jit threshold st i =
     (case st of (ts, gen) \<Rightarrow>
        if tph (ts ! i) > threshold then
          (case copies_loop jit threshold (std_trunc (tph (ts ! i) / threshold) - 1) i 0
                  (ts, gen, threshold) of
             (j, ts1, gen1, cum_tph) \<Rightarrow>
               (case (if cum_tph < tph (ts1 ! i) then
                        (case perturb jit gen1 ((ts1 ! i)\<lparr> expand_tree_id := of_nat (j + 1) \<rparr>) of
                           (new_tree, gen') \<Rightarrow>
                             (j + 1,
                              ts1 @ [compute_attributes
                                       (new_tree\<lparr> tph := tph (ts1 ! i) - cum_tph \<rparr>)],
                              gen'))
                      else (j, ts1, gen1)) of
                  (j2, ts2, gen2) \<Rightarrow>
                    (ts2[i := compute_attributes
                                ((ts2 ! i)\<lparr> tph := threshold, expand_tree_id := of_nat (j2 + 1) \<rparr>)],
                     gen2)))
        else (ts, gen))"

text \<open>\<^verbatim>\<open>STAND::expand_tree_list\<close> (stand.cpp 400-460).\<close>

definition expand_tree_list :: "(nat \<Rightarrow> real) \<Rightarrow> real \<Rightarrow> STAND \<Rightarrow> bool \<times> STAND" where
  "expand_tree_list jit threshold s =
     (if length (trees s) = 0 then (False, s)
      else (True, s\<lparr> trees := fst (foldl (expand_one jit threshold) (trees s, 0)
                                        [0..<length (trees s)]) \<rparr>))"

text \<open>
  \<^verbatim>\<open>STAND::unexpand_tree_list\<close> (stand.cpp 463-516). The two loops run over
  iterators: the outer one visits a record \<open>t\<close> with the records \<open>rest\<close> after it, the
  inner one (\<open>absorb_loop\<close>) walks \<open>rest\<close>, adding to the accumulator \<open>a\<close> (the record
  at \<^verbatim>\<open>t_itr\<close>) and marking what it absorbed. \<^verbatim>\<open>expand_tree_id\<close> is unsigned, so the
  mark \<open>- 1\<close> is the largest word, which is greater than 0.
\<close>

fun absorb_loop :: "TREE \<Rightarrow> TREE list \<Rightarrow> TREE \<times> TREE list" where
  "absorb_loop a [] = (a, [])"
| "absorb_loop a (t2 # rest) =
     (if plot_id t2 = plot_id a \<and> tree_id t2 = tree_id a \<and> expand_tree_id t2 > 0
         \<and> expand_tree_id t2 \<noteq> expand_tree_id a then
        (case absorb_loop
                (a\<lparr> tph := tph a + tph t2, dbh := dbh a + dbh t2 * tph t2,
                    ht := ht a + ht t2 * tph t2, hcb := hcb a + hcb t2 * tph t2,
                    cr := cr a + cr t2 * tph t2 \<rparr>) rest of
           (a', rest') \<Rightarrow> (a', t2\<lparr> expand_tree_id := - 1, tph := 0 \<rparr> # rest'))
      else
        (case absorb_loop a rest of (a', rest') \<Rightarrow> (a', t2 # rest')))"

lemma absorb_loop_length: "absorb_loop a ts = (a', ts') \<Longrightarrow> length ts' = length ts"
  by (induction ts arbitrary: a a' ts') (auto split: prod.splits if_splits)

function collapse_loop :: "TREE list \<Rightarrow> TREE list" where
  "collapse_loop [] = []"
| "collapse_loop (t # rest) =
     (if expand_tree_id t > 0 then
        (case absorb_loop (t\<lparr> dbh := dbh t * tph t, ht := ht t * tph t, hcb := hcb t * tph t,
                               cr := cr t * tph t \<rparr>) rest of
           (a, rest') \<Rightarrow>
             (if tph a > 0 then
                compute_attributes (a\<lparr> dbh := dbh a / tph a, ht := ht a / tph a,
                                        hcb := hcb a / tph a, cr := cr a / tph a,
                                        expand_tree_id := 0 \<rparr>)
              else a) # collapse_loop rest')
      else t # collapse_loop rest)"
  by pat_completeness auto
termination
  by (relation "measure length") (auto dest: absorb_loop_length[OF sym])

text \<open>The function: the loops, then \<^verbatim>\<open>std::erase_if\<close> of the records of density 0.\<close>

definition unexpand_tree_list :: "STAND \<Rightarrow> bool \<times> STAND" where
  "unexpand_tree_list s = (True, s\<lparr> trees := filter (\<lambda>t. \<not> tph t = 0) (collapse_loop (trees s)) \<rparr>)"

section \<open>Stand statistics: ranked traversals\<close>

text \<open>
  \<^verbatim>\<open>sort_indices\<close> (stand.cpp 19-35) returns the indices of the tree list ordered by
  decreasing diameter (\<open>use_dbh\<close>) or decreasing height. \<^verbatim>\<open>std::stable_sort\<close> is
  modelled by its result. The comparator of the source is \<^verbatim>\<open>>=\<close>, which holds in
  both directions between equal keys: the insertion and merge steps of the sort
  then put an index before the indices of equal key that came before it, so that
  equal keys come out in the reverse of their input order. This is a stable sort
  of the reversed index list on the negated key. The theorems below use only that
  the result is a permutation of the indices with non-increasing keys.
\<close>

definition sort_indices :: "TREE list \<Rightarrow> bool \<Rightarrow> nat list" where
  "sort_indices v use_dbh =
     sort_key (\<lambda>i. - (if use_dbh then dbh (v ! i) else ht (v ! i))) (rev [0..<length v])"

text \<open>The local variables of \<^verbatim>\<open>STAND::compute_ba_tph_bal\<close> (stand.cpp 65-70).\<close>

record bal_locals =
  run_bal_sw :: real
  run_bal :: real
  last_sw_dbh :: real
  last_dbh :: real
  pending_sw :: real
  pending :: real

text \<open>
  The loop body of \<^verbatim>\<open>compute_ba_tph_bal\<close> (stand.cpp 82-127) in its three parts:
  the stand totals, the ranking over all trees, the ranking over the softwoods. A
  bare \<^verbatim>\<open>throw;\<close> with no exception in flight calls \<^verbatim>\<open>std::terminate\<close>.
\<close>

definition bal_totals :: "TREE \<Rightarrow> STAND \<Rightarrow> STAND" where
  "bal_totals t s0 =
     (let s1 = s0\<lparr> stand_ba := stand_ba s0 + ba t \<rparr>;
          s2 = s1\<lparr> stand_tph := stand_tph s1 + tph t \<rparr>;
          s3 = (if spp t = 12 then s2\<lparr> bf_ba := bf_ba s2 + ba t \<rparr> else s2);
          s4 = (if \<not> softwood t \<and> shade t < 2 then s3\<lparr> ithw_ba := ithw_ba s3 + ba t \<rparr> else s3)
      in if softwood t then s4\<lparr> ba_sw := ba_sw s4 + ba t \<rparr>
         else s4\<lparr> ba_hw := ba_hw s4 + ba t \<rparr>)"

definition bal_rank_all :: "bal_locals \<Rightarrow> TREE \<Rightarrow> error + (bal_locals \<times> TREE)" where
  "bal_rank_all l t =
     (if dbh t < last_dbh l then
        Inr (l\<lparr> pending := run_bal l, run_bal := run_bal l + ba t, last_dbh := dbh t \<rparr>,
             t\<lparr> bal := run_bal l \<rparr>)
      else if dbh t = last_dbh l then
        Inr (l\<lparr> run_bal := run_bal l + ba t \<rparr>, t\<lparr> bal := pending l \<rparr>)
      else Inl terminate)"

definition bal_rank_sw :: "bal_locals \<Rightarrow> TREE \<Rightarrow> error + (bal_locals \<times> TREE)" where
  "bal_rank_sw l t =
     (if softwood t then
        (if dbh t < last_sw_dbh l then
           Inr (l\<lparr> pending_sw := run_bal_sw l, run_bal_sw := run_bal_sw l + ba t,
                   last_sw_dbh := dbh t \<rparr>,
                t\<lparr> bal_sw := run_bal_sw l \<rparr>)
         else if dbh t = last_sw_dbh l then
           Inr (l\<lparr> run_bal_sw := run_bal_sw l + ba t \<rparr>, t\<lparr> bal_sw := pending_sw l \<rparr>)
         else Inl terminate)
      else Inr (l, t\<lparr> bal_sw := run_bal_sw l \<rparr>))"

definition bal_step :: "nat \<Rightarrow> bal_locals \<times> STAND \<Rightarrow> error + (bal_locals \<times> STAND)" where
  "bal_step i ls =
     (case ls of (l0, s0) \<Rightarrow>
        (let t0 = trees s0 ! i; s1 = bal_totals t0 s0 in
         case bal_rank_all l0 t0 of
           Inl e \<Rightarrow> Inl e
         | Inr (l1, t1) \<Rightarrow>
             (case bal_rank_sw l1 t1 of
                Inl e \<Rightarrow> Inl e
              | Inr (l2, t2) \<Rightarrow>
                  Inr (l2, s1\<lparr> trees := (trees s1)[i := t2\<lparr> bal_hw := bal t2 - bal_sw t2 \<rparr>] \<rparr>))))"

fun bal_loop :: "nat list \<Rightarrow> bal_locals \<times> STAND \<Rightarrow> error + (bal_locals \<times> STAND)" where
  "bal_loop [] ls = Inr ls"
| "bal_loop (i # idx) ls =
     (case bal_step i ls of Inl e \<Rightarrow> Inl e | Inr ls' \<Rightarrow> bal_loop idx ls')"

text \<open>\<^verbatim>\<open>STAND::compute_ba_tph_bal\<close> (stand.cpp 63-131).\<close>

definition compute_ba_tph_bal :: "STAND \<Rightarrow> error + STAND" where
  "compute_ba_tph_bal s =
     (let l0 = \<lparr> run_bal_sw = 0, run_bal = 0, last_sw_dbh = 9999, last_dbh = 9999,
                 pending_sw = 0, pending = 0 \<rparr>;
          s0 = s\<lparr> stand_ba := 0, ba_sw := 0, ba_hw := 0, bf_ba := 0, ithw_ba := 0,
                  stand_tph := 0 \<rparr>
      in case bal_loop (sort_indices (trees s0) True) (l0, s0) of
           Inl e \<Rightarrow> Inl e
         | Inr (l, s1) \<Rightarrow>
             Inr (s1\<lparr> qmd := (if stand_tph s1 > 0
                                then sqrt (stand_ba s1 / stand_tph s1 / 0.00007854) else 0) \<rparr>))"

text \<open>
  What the specification asks of the ranking: the sum of the basal areas of the trees
  selected by \<open>P\<close> whose diameter is strictly greater than \<open>d\<close>.
\<close>

definition ba_in_larger :: "(TREE \<Rightarrow> bool) \<Rightarrow> real \<Rightarrow> TREE list \<Rightarrow> real" where
  "ba_in_larger P d ts = sum_list (map ba (filter (\<lambda>t. P t \<and> d < dbh t) ts))"






section \<open>Sample inputs\<close>

text \<open>
  The balsam fir of the specification's scenario (species 12, diameter 10 cm, height
  8 m, 40 trees/ha, crown ratio 0.6, form 1, risk 1) as the constructor leaves it:
  \<open>hcb = (1 - cr) * ht\<close>, \<open>ba = dbh * dbh * 0.00007854 * tph\<close>, neutral growth
  deltas. The coefficient sets come from tables that are not in the sources; the
  values here are placeholders of the right shape.
\<close>

definition fir_tree :: TREE where
  "fir_tree = \<lparr> plot_id = 1, tree_id = 1, expand_tree_id = 0, spp = 12, dbh = 10, ht = 8,
      tph = 40, cr = 0.6, Form = 1, Risk = 1, ba = 0.31416, bal = 0, bal_hw = 0, bal_sw = 0,
      mcw = 10, lcw = 1, mca = 31.4159265358979323846, hcb = 3.2, softwood = True,
      sg = 0.35, shade = 5, ddbh = 0, dht = 0, dhcb = 0, dtph = 0, p_survival = 1,
      mcw_p = \<lparr> a1 = 1, a2 = 1 \<rparr>, lcw_p = \<lparr> a1 = 1, a2 = 1 \<rparr>,
      mort_beta = [0, 0, 0, 0, 0] \<rparr>"

text \<open>
  A stand in region ME holding that tree, in the year after a thinning that removed
  30 percent of a basal area of 30, with the thinning modifier enabled and ingrowth
  disabled.
\<close>

definition fir_stand :: STAND where
  "fir_stand = \<lparr> Region = ''ME'', year = 1, csi = 16, elevation = 100, CDEF = - 1,
      average_sg = 0.35, average_sg_10 = 0.35, average_height_sw = 8, average_height_hw = 0,
      topht = 8, ba_sw = 0.31416, ba_hw = 0, stand_ba = 0.31416, stand_tph = 40, qmd = 10,
      n_species = 1, min_dbh = 10, max_dbh = 10, min_dbh_10 = 10, rd = 0, rd_10 = 0,
      sdi_10 = 9, sdi = 9, bf_ba = 0.31416, ithw_ba = 0,
      use_sbw_mod = False, use_hw_mod = False, use_thin_mod = True, use_ingrowth = False,
      cut_point = 0.5, MinDBH = 0, initialized = True,
      percent_ba_removed = 0.3, ba_pre_thin = 30, qmd_ratio = 1, thin_year = 0,
      trees = [fir_tree], max_tree_id = 1, ba_spp = [], ba_grp_spp = [],
      plot_species_ba = [] \<rparr>"

text \<open>
  The same tree built with a crown ratio of 1.5 and a height of 10 m: the constructor
  sets \<open>hcb = (1 - 1.5) * 10 = - 5\<close>.
\<close>

definition overcrowned_tree :: TREE where
  "overcrowned_tree = fir_tree\<lparr> ht := 10, cr := 1.5, hcb := - 5 \<rparr>"

text \<open>
  The balsam fir with the increments of a growing year, and the same with a crown
  base increment that would carry the crown base above the new height.
\<close>

definition growing_tree :: TREE where
  "growing_tree = fir_tree\<lparr> ddbh := 0.3, dht := 0.4, dhcb := 0.2 \<rparr>"

definition clamped_tree :: TREE where
  "clamped_tree = fir_tree\<lparr> ddbh := 0.3, dht := 0.4, dhcb := 6 \<rparr>"

text \<open>
  Three records on one plot: two softwoods of diameter 10 cm around a hardwood of
  diameter 20 cm.
\<close>

definition tie_stand :: STAND where
  "tie_stand = fir_stand\<lparr> trees :=
     [fir_tree,
      fir_tree\<lparr> tree_id := 2, spp := 316, dbh := 20, ht := 15, tph := 70, ba := 2.19912,
                 softwood := False \<rparr>,
      fir_tree\<lparr> tree_id := 3, ht := 3, tph := 100, ba := 0.7854 \<rparr>] \<rparr>"

text \<open>
  Species tables that resolve every code to the table entries of \<open>fir_tree\<close>, and a
  stand of two records on one plot: the balsam fir and a red maple record whose
  density, and so basal area, is 0.
\<close>

definition sample_tab :: "int \<Rightarrow> TREE option" where
  "sample_tab k = Some fir_tree"

definition zero_ba_stand :: STAND where
  "zero_ba_stand = fir_stand\<lparr> trees :=
     [fir_tree, fir_tree\<lparr> tree_id := 2, spp := 316, tph := 0, ba := 0, softwood := False \<rparr>] \<rparr>"

text \<open>
  A stand of five records on two plots, with empty ingrowth maps: balsam fir on both
  plots, red spruce on plot 2, black spruce on plot 1, and a white spruce record on
  plot 2 whose density, and so basal area, is 0. The three spruces are one group of
  the cross-walk.
\<close>

definition mixed_stand :: STAND where
  "mixed_stand = fir_stand\<lparr> stand_ba := 1.1781, max_tree_id := 5, trees :=
     [fir_tree,
      fir_tree\<lparr> plot_id := 2, tree_id := 2, spp := 97, dbh := 20, tph := 20, ba := 0.62832 \<rparr>,
      fir_tree\<lparr> tree_id := 3, spp := 95, tph := 20, ba := 0.15708 \<rparr>,
      fir_tree\<lparr> plot_id := 2, tree_id := 4, spp := 94, tph := 0, ba := 0 \<rparr>,
      fir_tree\<lparr> plot_id := 2, tree_id := 5, tph := 10, ba := 0.07854 \<rparr>] \<rparr>"

text \<open>
  A stand of two balsam firs on one plot, the second one standing for 100 trees per
  hectare, and a generator whose every draw is 0.004, a value inside the range
  of \<^verbatim>\<open>std::uniform_real_distribution<double>(-0.005, 0.005)\<close> (stand.cpp 407).
\<close>

definition dense_stand :: STAND where
  "dense_stand = fir_stand\<lparr> trees := [fir_tree, fir_tree\<lparr> tree_id := 2, tph := 100 \<rparr>] \<rparr>"

definition steady_jitter :: "nat \<Rightarrow> real" where
  "steady_jitter n = 0.004"

section \<open>Auxiliary notions for the proofs\<close>

text \<open>
  Sums over a list of indices into the tree list, the summand of \<open>ba_in_larger\<close>,
  and the loop invariant of \<open>bal_loop\<close>: after the indices \<open>P\<close> have been processed
  (the tree list \<open>ts0\<close> before the loop, \<open>ts\<close> now), the locals and the \<open>bal\<close> and
  \<open>bal_sw\<close> fields written so far are the sums they are meant to be.
\<close>

definition idx_sum :: "(TREE \<Rightarrow> real) \<Rightarrow> TREE list \<Rightarrow> nat list \<Rightarrow> real" where
  "idx_sum f ts P = sum_list (map (\<lambda>k. f (ts ! k)) P)"

definition larger_ba :: "(TREE \<Rightarrow> bool) \<Rightarrow> real \<Rightarrow> TREE \<Rightarrow> real" where
  "larger_ba Q d t = (if Q t \<and> d < dbh t then ba t else 0)"

definition bal_inv :: "TREE list \<Rightarrow> nat list \<Rightarrow> bal_locals \<Rightarrow> TREE list \<Rightarrow> bool" where
  "bal_inv ts0 P l ts \<longleftrightarrow>
     length ts = length ts0 \<and>
     (\<forall>k<length ts0. dbh (ts ! k) = dbh (ts0 ! k) \<and> ba (ts ! k) = ba (ts0 ! k)
                      \<and> softwood (ts ! k) = softwood (ts0 ! k)) \<and>
     run_bal l = idx_sum ba ts0 P \<and>
     pending l = idx_sum (larger_ba (\<lambda>_. True) (last_dbh l)) ts0 P \<and>
     (\<forall>k\<in>set P. last_dbh l \<le> dbh (ts0 ! k)) \<and>
     (\<forall>k\<in>set P. bal (ts ! k) = idx_sum (larger_ba (\<lambda>_. True) (dbh (ts0 ! k))) ts0 P) \<and>
     run_bal_sw l = idx_sum (\<lambda>t. if softwood t then ba t else 0) ts0 P \<and>
     pending_sw l = idx_sum (larger_ba softwood (last_sw_dbh l)) ts0 P \<and>
     (\<forall>k\<in>set P. softwood (ts0 ! k) \<longrightarrow> last_sw_dbh l \<le> dbh (ts0 ! k)) \<and>
     (\<forall>k\<in>set P. softwood (ts0 ! k) \<longrightarrow>
                  bal_sw (ts ! k) = idx_sum (larger_ba softwood (dbh (ts0 ! k))) ts0 P)"

text \<open>
  For the ingrowth allocation: the basal area of the species of \<open>m\<close> that the
  cross-walk sends to group \<open>g\<close>; the basal area of species \<open>k\<close> over all plots; the
  invariant that \<open>build_ba_spp_map\<close> keeps between the three maps, whatever they
  held before the call (the source never clears them); plot maps that
  differ only by zero entries; and the densities that the third loop of
  \<open>ingrowth_composition\<close> gives to the new records of one species (\<open>plot_sum\<close>) and
  of all species (\<open>spp_sum\<close>).
\<close>

definition group_total :: "(int \<times> real) list \<Rightarrow> int \<Rightarrow> real" where
  "group_total m g = sum_list (map (\<lambda>(k, w). if map_of cross_walk k = Some g then w else 0) m)"

definition plot_total :: "('p \<times> (int \<times> real) list) list \<Rightarrow> int \<Rightarrow> real" where
  "plot_total ps k = sum_list (map (\<lambda>(p, psba). alist_get psba k) ps)"

definition maps_inv :: "STAND \<Rightarrow> bool" where
  "maps_inv s \<longleftrightarrow>
     distinct (map fst (ba_spp s)) \<and> distinct (map fst (ba_grp_spp s)) \<and>
     list_all (\<lambda>(k, w). 0 \<le> w) (ba_spp s) \<and>
     list_all (\<lambda>(p, m). list_all (\<lambda>(k, w). 0 \<le> w) m) (plot_species_ba s) \<and>
     (\<forall>k\<in>set (map fst (ba_spp s)). \<exists>g\<in>set (map fst (ba_grp_spp s)). map_of cross_walk k = Some g) \<and>
     (\<forall>g. group_total (ba_spp s) g = alist_get (ba_grp_spp s) g) \<and>
     (\<forall>k. plot_total (plot_species_ba s) k = alist_get (ba_spp s) k)"

definition plots_equiv ::
  "('p \<times> (int \<times> real) list) list \<Rightarrow> ('p \<times> (int \<times> real) list) list \<Rightarrow> bool" where
  "plots_equiv ps ps' \<longleftrightarrow>
     list_all2 (\<lambda>x y. fst x = fst y \<and> (\<forall>k. alist_get (snd y) k = alist_get (snd x) k)) ps ps'"

definition plot_sum :: "int \<Rightarrow> real \<Rightarrow> real \<Rightarrow> ('p \<times> (int \<times> real) list) list \<Rightarrow> real" where
  "plot_sum k sba a ps =
     sum_list (map (\<lambda>(p, psba). if alist_get psba k / sba > 0 then a * (alist_get psba k / sba) else 0) ps)"

definition spp_alloc :: "(int \<times> real) list \<Rightarrow> (int \<times> real) list \<Rightarrow> int \<Rightarrow> real \<Rightarrow> real" where
  "spp_alloc sgp grp k sba =
     alist_get sgp (the (map_of cross_walk k)) * sba / alist_get grp (the (map_of cross_walk k))"

definition spp_sum ::
  "(int \<times> real) list \<Rightarrow> (int \<times> real) list \<Rightarrow> ('p \<times> (int \<times> real) list) list \<Rightarrow> (int \<times> real) list \<Rightarrow> real" where
  "spp_sum sgp grp ps m = sum_list (map (\<lambda>(k, sba). plot_sum k sba (spp_alloc sgp grp k sba) ps) m)"

text \<open>
  For the expansion and the collapse of the tree list. A record is identified by
  its plot and tree numbers. \<open>copy_of t k c\<close>: the record \<open>c\<close> is a synthetic copy
  of \<open>t\<close>, with the crown ratio of \<open>t\<close>, a diameter and a height within 0.005 of
  those of \<open>t\<close>, and a positive expand id other than \<open>k\<close>. \<open>fresh_copy\<close> is the same
  with the expand id given as a counter value between two bounds.
\<close>

definition tree_key :: "TREE \<Rightarrow> 64 word \<times> 64 word" where
  "tree_key t = (plot_id t, tree_id t)"

definition copy_of :: "TREE \<Rightarrow> 64 word \<Rightarrow> TREE \<Rightarrow> bool" where
  "copy_of t k c \<longleftrightarrow>
     tree_key c = tree_key t \<and> cr c = cr t \<and>
     \<bar>dbh c - dbh t\<bar> \<le> 0.005 \<and> \<bar>ht c - ht t\<bar> \<le> 0.005 \<and>
     0 < expand_tree_id c \<and> expand_tree_id c \<noteq> k \<and> 0 \<le> tph c"

definition fresh_copy :: "TREE \<Rightarrow> nat \<Rightarrow> nat \<Rightarrow> TREE \<Rightarrow> bool" where
  "fresh_copy t lo hi c \<longleftrightarrow>
     tree_key c = tree_key t \<and> cr c = cr t \<and>
     \<bar>dbh c - dbh t\<bar> \<le> 0.005 \<and> \<bar>ht c - ht t\<bar> \<le> 0.005 \<and>
     (\<exists>m. lo < m \<and> m \<le> hi \<and> expand_tree_id c = of_nat m)"

text \<open>
  \<open>expanded_orig t o'\<close>: \<open>o'\<close> is what the expansion leaves in the place of a record
  \<open>t\<close> of more than 50 trees per hectare. \<open>expanded_ok t o' C\<close>: within the appended
  records \<open>C\<close>, a record \<open>t\<close> of at most 50 trees per hectare is untouched and has
  no copy, and a larger one has become \<open>o'\<close> and copies which carry the rest of its
  density.
\<close>

definition expanded_orig :: "TREE \<Rightarrow> TREE \<Rightarrow> bool" where
  "expanded_orig t o' \<longleftrightarrow>
     tree_key o' = tree_key t \<and> dbh o' = dbh t \<and> ht o' = ht t \<and> cr o' = cr t \<and>
     tph o' = 50 \<and> 0 < expand_tree_id o'"

definition expanded_ok :: "TREE \<Rightarrow> TREE \<Rightarrow> TREE list \<Rightarrow> bool" where
  "expanded_ok t o' C \<longleftrightarrow>
     (tph t \<le> 50 \<and> o' = t \<and> (\<forall>c\<in>set C. tree_key c \<noteq> tree_key t)) \<or>
     (50 < tph t \<and> expanded_orig t o' \<and>
      (\<forall>c\<in>set C. tree_key c = tree_key t \<longrightarrow> copy_of t (expand_tree_id o') c) \<and>
      sum_list (map tph (filter (\<lambda>c. tree_key c = tree_key t) C)) = tph t - 50)"

text \<open>
  The test of the inner loop of \<^verbatim>\<open>unexpand_tree_list\<close> (stand.cpp 481-484), what it
  does to a record it has absorbed, and the state of such a record.
\<close>

definition matches :: "TREE \<Rightarrow> TREE \<Rightarrow> bool" where
  "matches a t \<longleftrightarrow>
     plot_id t = plot_id a \<and> tree_id t = tree_id a \<and> 0 < expand_tree_id t
     \<and> expand_tree_id t \<noteq> expand_tree_id a"

definition mark :: "TREE \<Rightarrow> TREE" where
  "mark t = t\<lparr> expand_tree_id := - 1, tph := 0 \<rparr>"

definition consumed :: "TREE \<Rightarrow> bool" where
  "consumed c \<longleftrightarrow> tph c = 0 \<and> expand_tree_id c = - 1"

text \<open>
  \<open>restored t r\<close>: the record \<open>r\<close> stands for \<open>t\<close> after the round trip, with the
  identity, the density and the crown ratio of \<open>t\<close>, expand id 0, and a diameter
  and a height within 0.005 of those of \<open>t\<close>.
\<close>

definition restored :: "TREE \<Rightarrow> TREE \<Rightarrow> bool" where
  "restored t r \<longleftrightarrow>
     plot_id r = plot_id t \<and> tree_id r = tree_id t \<and> expand_tree_id r = 0 \<and>
     tph r = tph t \<and> cr r = cr t \<and>
     \<bar>dbh r - dbh t\<bar> \<le> 0.005 \<and> \<bar>ht r - ht t\<bar> \<le> 0.005"

section \<open>Theorems\<close>

subsection \<open>Stand construction\<close>

text \<open>
  C8. Constructing a stand fails with an invalid-argument error exactly when the
  region code is neither "ME" nor "NB" or the climate site index is not strictly
  positive, and it succeeds exactly otherwise. Building a stand with its tree list
  returns the constructor's error unchanged when the constructor fails (no tree is
  ingested), and the constructed stand with the trees when it succeeds.
\<close>

theorem C8_ctor_fails_iff:
  "((\<exists>m. STAND_ctor raw r y c e d sb hw th ig cp md = Inl (invalid_argument m))
      = ((r \<noteq> ''ME'' \<and> r \<noteq> ''NB'') \<or> c \<le> 0))
   \<and> ((\<exists>s. STAND_ctor raw r y c e d sb hw th ig cp md = Inr s)
      = (\<not> ((r \<noteq> ''ME'' \<and> r \<noteq> ''NB'') \<or> c \<le> 0)))
   \<and> build_stand raw r y c e d sb hw th ig cp md ts =
        map_sum id (\<lambda>s. s\<lparr> trees := ts \<rparr>) (STAND_ctor raw r y c e d sb hw th ig cp md)"
  by (auto simp: STAND_ctor_def build_stand_def Let_def)

subsection \<open>Ingrowth estimate\<close>

text \<open>
  C9. For every stand state and model variant: when the cut-point is 0 the
  estimate is the rate term times the probability of occurrence; when the cut-point
  is not 0, it is the rate term if the probability reaches the cut-point and 0
  otherwise.
\<close>

theorem C9_ingrowth_cut_point:
  "ingrowth s type =
     (if cut_point s = 0 then ingrowth_rate s type * ingrowth_occurrence s type
      else if ingrowth_occurrence s type \<ge> cut_point s then ingrowth_rate s type
      else 0)"
  by (cases type)
     (simp_all add: ingrowth_def ingrowth_rate_def ingrowth_occurrence_def
        ingrowth_linear_def Let_def)


subsection \<open>Relative density\<close>

lemma compute_sdi_rd_rd_10:
  "rd_10 (compute_sdi_rd s) =
     sdi_10 s / (if SDImax_primary_10 s > 0 then SDImax2 s else SDImax_primary_10 s)"
  by (simp add: compute_sdi_rd_def Let_def SDImax_primary_10_def SDImax2_def dbh_10_range_def)

lemma compute_sdi_rd_rd:
  "rd (compute_sdi_rd s) =
     sdi s / (if SDImax_primary_all s > 0 then SDImax_primary_all s else SDImax2 s)"
  by (simp add: compute_sdi_rd_def Let_def SDImax_primary_all_def SDImax2_def dbh_range_def)

lemma ln_four_fifths_bounds: "- (1/4) \<le> ln (4/5 :: real)" "ln (4/5 :: real) < 0"
proof -
  have "ln (1 + 1/4 :: real) \<le> 1/4" by (rule ln_add_one_self_le_self) simp
  moreover have "ln (4/5 :: real) = - ln (1 + 1/4)"
    using ln_inverse[of "5/4 :: real"] by simp
  ultimately show "- (1/4) \<le> ln (4/5 :: real)" by simp
  show "ln (4/5 :: real) < 0" by (rule ln_less_zero) simp_all
qed

lemma fir_stand_primary_10:
  "SDImax_primary_10 fir_stand = 19238603 / 40000 - 2369051 / 10000 * ln (4/5)"
proof -
  have "sqrt (100::real) = 10" using real_sqrt_abs[of "10::real"] by simp
  then show ?thesis
    by (simp add: SDImax_primary_10_def fir_stand_def dbh_10_range_def)
qed

lemma fir_stand_SDImax2: "SDImax2 fir_stand = 544349 / 1000"
  by (simp add: SDImax2_def fir_stand_def)

text \<open>
  C2. The claim is that both ceilings use the primary regression when it is positive.
  For the all-trees ceiling this is \<open>compute_sdi_rd_rd\<close>. For the ceiling of the
  trees of at least 10 cm the code selects the other way round
  (\<open>compute_sdi_rd_rd_10\<close>): on \<open>fir_stand\<close> the primary regression is positive
  (between 480 and 541), and \<open>rd_10\<close> is \<open>sdi_10\<close> divided by the fallback \<open>SDImax2\<close>
  (544.349), not by the primary value.
\<close>

theorem C2_rd_10_divides_by_fallback:
  "0 < SDImax_primary_10 fir_stand
   \<and> rd_10 (compute_sdi_rd fir_stand) = sdi_10 fir_stand / SDImax2 fir_stand
   \<and> rd_10 (compute_sdi_rd fir_stand) \<noteq> sdi_10 fir_stand / SDImax_primary_10 fir_stand"
proof -
  have lo: "480 < SDImax_primary_10 fir_stand"
    unfolding fir_stand_primary_10 using ln_four_fifths_bounds(2) by linarith
  have hi: "SDImax_primary_10 fir_stand < 541"
    unfolding fir_stand_primary_10 using ln_four_fifths_bounds(1) by linarith
  have s: "sdi_10 fir_stand = 9" by (simp add: fir_stand_def)
  have "9 / (544349 / 1000) \<noteq> 9 / SDImax_primary_10 fir_stand"
    using lo hi by (simp add: field_simps)
  then show ?thesis using lo
    by (simp add: compute_sdi_rd_rd_10 fir_stand_SDImax2 s)
qed

subsection \<open>Survival probability\<close>

lemma exp_minus_one_le_half: "exp (- 1 :: real) \<le> 1 / 2"
proof -
  have "(2::real) \<le> exp 1" using exp_ge_add_one_self[of "1::real"] by simp
  then have "1 / exp (1::real) \<le> 1 / 2" by (simp add: field_simps)
  then show ?thesis by (simp add: exp_minus field_simps)
qed

lemma base_survival_range: "0 < base_survival t \<and> base_survival t < 1"
  by (simp add: base_survival_def)

lemma tph_survival_prob [simp]:
  "tph (survival_prob t Rgn site sba sqmd p b q ty y hh hs cd sbw_on hw_on thin_on) = tph t"
  by (simp add: survival_prob_def Let_def)

text \<open>
  For a balsam fir with a recorded thinning, \<open>surv_thin\<close> returns the reciprocal of a
  hazard ratio that is at least 1, so dividing by it, as \<open>survival_prob\<close> does,
  multiplies by that hazard ratio.
\<close>

lemma surv_thin_balsam_fir:
  assumes "spp t = 12" "0 \<le> ty" "ty \<le> y" "0 < p" "0 < q" "0 < b"
  shows "1 / surv_thin t p b q ty y =
      1 + exp (1.7414 + 7.0805 / ((100 * p + b) * q + 0.01))
          * std_pow 0.6677 (real_of_int (y - ty)) * std_pow (real_of_int (y - ty)) 0.8474"
proof -
  define E where "E = exp (1.7414 + 7.0805 / ((100 * p + b) * q + 0.01))
          * std_pow 0.6677 (real_of_int (y - ty)) * std_pow (real_of_int (y - ty)) 0.8474"
  have "0 \<le> E" by (simp add: E_def std_pow_def)
  then have le: "1 / (1 + E) \<le> 1" by simp
  have "surv_thin t p b q ty y = 1 / (1 + E)"
    using assms le unfolding surv_thin_def Let_def E_def by simp
  then show ?thesis using \<open>0 \<le> E\<close> unfolding E_def by simp
qed

lemma fir_tree_hazard:
  "1 / surv_thin fir_tree 0.3 30 1 0 1 = 1 + exp (1.7414 + 7.0805 / 60.01) * 0.6677"
proof -
  have "spp fir_tree = 12" by (simp add: fir_tree_def)
  from surv_thin_balsam_fir[OF this, of 0 1 "0.3" 1 30]
  show ?thesis by (simp add: std_pow_def)
qed

lemma fir_tree_hazard_lower: "(1.8 :: real) \<le> exp (1.7414 + 7.0805 / 60.01) * 0.6677"
proof -
  have "(1 + (1.7414 + 7.0805 / 60.01) :: real) \<le> exp (1.7414 + 7.0805 / 60.01)"
    by (rule exp_ge_add_one_self)
  then have "(2.7414 :: real) \<le> exp (1.7414 + 7.0805 / 60.01)" by simp
  then show ?thesis by simp
qed

lemma fir_tree_thinned_survival:
  "1.4 \<le> p_survival (survival_prob fir_tree ''ME'' 16 0.31416 10 0.3 30 1 0 1 0 8 (- 1)
                        False False True)"
proof -
  have a: "(1/2 :: real) \<le> base_survival fir_tree"
    using exp_minus_one_le_half by (simp add: base_survival_def fir_tree_def)
  have b: "(2.8 :: real) \<le> 1 / surv_thin fir_tree 0.3 30 1 0 1"
    using fir_tree_hazard_lower unfolding fir_tree_hazard by simp
  have "(1/2) * 2.8 \<le> base_survival fir_tree * (1 / surv_thin fir_tree 0.3 30 1 0 1)"
    using a b by (intro mult_mono) simp_all
  then show ?thesis by (simp add: survival_prob_def Let_def)
qed

text \<open>
  C3. The claim is that no combination of modifiers raises the survival probability
  above the base value. With only the thinning modifier enabled, the balsam fir
  \<open>fir_tree\<close>, one year after a thinning, gets a survival probability above its base
  value (and above 1): \<open>surv_thin\<close> already returns the reciprocal of the hazard
  ratio, and \<open>survival_prob\<close> divides by it once more.
\<close>

theorem C3_thinning_modifier_raises_survival:
  "p_survival (survival_prob fir_tree ''ME'' 16 0.31416 10 0.3 30 1 0 1 0 8 (- 1)
                 False False False)
     = base_survival fir_tree
   \<and> base_survival fir_tree
     < p_survival (survival_prob fir_tree ''ME'' 16 0.31416 10 0.3 30 1 0 1 0 8 (- 1)
                     False False True)"
proof -
  have "base_survival fir_tree < 1" by (simp add: base_survival_range)
  moreover have "1 < p_survival (survival_prob fir_tree ''ME'' 16 0.31416 10 0.3 30 1 0 1 0 8
                           (- 1) False False True)"
    using fir_tree_thinned_survival by simp
  moreover have "p_survival (survival_prob fir_tree ''ME'' 16 0.31416 10 0.3 30 1 0 1 0 8 (- 1)
                 False False False) = base_survival fir_tree"
    by (simp add: survival_prob_def)
  ultimately show ?thesis by linarith
qed

subsection \<open>Density after mortality\<close>

lemma tph_apply_growth_mortality:
  "tph (apply_growth_mortality t) = tph t - (if dtph t \<le> tph t then dtph t else tph t)"
  by (simp add: apply_growth_mortality_def Let_def reset_def compute_mca_def compute_lcw_def
        compute_mcw_def)

lemma mort_thin_ge_1: "1 \<le> mort_thin s"
  by (simp add: mort_thin_def Let_def std_pow_def)

lemma trees_survival_apply:
  "trees (stand_apply_growth_mortality (survival s)) =
     map (\<lambda>t. apply_growth_mortality
        ((survival_prob t (Region s) (csi s) (stand_ba s) (qmd s)
                          (percent_ba_removed s) (ba_pre_thin s) (qmd_ratio s)
                          (double_to_int (thin_year s)) (year s)
                          (average_height_hw s) (average_height_sw s) (CDEF s)
                          (use_sbw_mod s) (use_hw_mod s) (use_thin_mod s))
          \<lparr> dtph := tph t * (1 - p_survival (survival_prob t (Region s) (csi s) (stand_ba s)
                          (qmd s) (percent_ba_removed s) (ba_pre_thin s) (qmd_ratio s)
                          (double_to_int (thin_year s)) (year s)
                          (average_height_hw s) (average_height_sw s) (CDEF s)
                          (use_sbw_mod s) (use_hw_mod s) (use_thin_mod s)))
               * (if use_sbw_mod s then mort_sbw s else 1)
               * (if use_thin_mod s then mort_thin s else 1) \<rparr>)) (trees s)"
  by (simp add: stand_apply_growth_mortality_def survival_def compute_survival_prob_def Let_def
        survival_prob_def)

lemma fir_stand_fields:
  "Region fir_stand = ''ME''" "csi fir_stand = 16" "stand_ba fir_stand = 0.31416"
  "qmd fir_stand = 10" "percent_ba_removed fir_stand = 0.3" "ba_pre_thin fir_stand = 30"
  "qmd_ratio fir_stand = 1" "thin_year fir_stand = 0" "year fir_stand = 1"
  "average_height_hw fir_stand = 0" "average_height_sw fir_stand = 8" "CDEF fir_stand = - 1"
  "use_sbw_mod fir_stand = False" "use_hw_mod fir_stand = False" "use_thin_mod fir_stand = True"
  "use_ingrowth fir_stand = False" "trees fir_stand = [fir_tree]"
  by (simp_all add: fir_stand_def)

text \<open>
  C4. The claim is that a year of growth without ingrowth never increases a record's
  density. On \<open>fir_stand\<close> (ingrowth disabled, thinning modifier enabled) the survival
  step followed by the apply step leaves the single record with more than its 40
  trees/ha: the survival probability exceeds 1 (the defect of C3), so the density
  loss \<open>dtph\<close> is negative, and \<open>apply_growth_mortality\<close> subtracts it.
\<close>

theorem C4_density_increases_after_thinning:
  "trees fir_stand = [fir_tree] \<and> \<not> use_ingrowth fir_stand \<and>
   tph fir_tree < tph (hd (trees (stand_apply_growth_mortality (survival fir_stand))))"
proof -
  define p where "p = p_survival (survival_prob fir_tree ''ME'' 16 0.31416 10 0.3 30 1 0 1 0 8
                           (- 1) False False True)"
  define d where "d = 40 * (1 - p) * mort_thin fir_stand"
  have "40 * (1 - p) < 0" using fir_tree_thinned_survival unfolding p_def by simp
  then have dneg: "d < 0" unfolding d_def using mort_thin_ge_1[of fir_stand]
    by (simp add: mult_less_0_iff)
  have tp: "tph fir_tree = 40" by (simp add: fir_tree_def)
  have "tph (hd (trees (stand_apply_growth_mortality (survival fir_stand))))
          = 40 - (if d \<le> 40 then d else 40)"
    unfolding trees_survival_apply
    by (simp add: fir_stand_fields double_to_int_def tph_apply_growth_mortality p_def tp d_def)
  then show ?thesis using dneg tp by (simp add: fir_stand_fields)
qed

subsection \<open>Crown base after growth\<close>

text \<open>
  The claim C7 as stated, for any tree, fails on \<open>overcrowned_tree\<close>: its crown base
  is below the ground, and the recomputed crown ratio is 1.5.
\<close>

theorem C7_crown_ratio_counterexample:
  "\<not> (hcb (apply_growth_mortality overcrowned_tree) \<le> ht (apply_growth_mortality overcrowned_tree)
      \<and> 0 \<le> cr (apply_growth_mortality overcrowned_tree)
      \<and> cr (apply_growth_mortality overcrowned_tree) \<le> 1)"
  by (simp add: apply_growth_mortality_def Let_def reset_def compute_mca_def compute_lcw_def
        compute_mcw_def overcrowned_tree_def fir_tree_def)

text \<open>
  C7 (amended). After \<open>apply_growth_mortality\<close> on any tree the height to crown base
  is at most the height and the crown ratio is \<open>(ht - hcb) / ht\<close>; when the grown
  height \<open>ht + dht\<close> is positive and the grown crown base \<open>hcb + dhcb\<close> is not
  negative, the crown ratio lies in [0, 1].
\<close>

theorem C7_crown_base_bound:
  "hcb (apply_growth_mortality t) \<le> ht (apply_growth_mortality t)
   \<and> cr (apply_growth_mortality t)
       = (ht (apply_growth_mortality t) - hcb (apply_growth_mortality t))
         / ht (apply_growth_mortality t)
   \<and> (0 < ht t + dht t \<and> 0 \<le> hcb t + dhcb t \<longrightarrow>
        0 \<le> cr (apply_growth_mortality t) \<and> cr (apply_growth_mortality t) \<le> 1)"
  by (simp add: apply_growth_mortality_def Let_def reset_def compute_mca_def compute_lcw_def
        compute_mcw_def)

text \<open>
  The theorem at a tree with no increments, at a growing tree (the crown base goes
  from 3.2 to 3.4 under a height of 8.4), and at a tree whose crown base is cut back
  to the new height 8.4, with crown ratio 0.
\<close>

theorem C7_crown_base_bound_witness:
  "(0 < ht fir_tree + dht fir_tree \<and> 0 \<le> hcb fir_tree + dhcb fir_tree
    \<and> hcb (apply_growth_mortality fir_tree) \<le> ht (apply_growth_mortality fir_tree)
    \<and> 0 \<le> cr (apply_growth_mortality fir_tree) \<and> cr (apply_growth_mortality fir_tree) \<le> 1)
   \<and> (0 < ht growing_tree + dht growing_tree \<and> 0 \<le> hcb growing_tree + dhcb growing_tree
    \<and> ht (apply_growth_mortality growing_tree) = 8.4
    \<and> hcb (apply_growth_mortality growing_tree) = 3.4
    \<and> hcb (apply_growth_mortality growing_tree) \<le> ht (apply_growth_mortality growing_tree)
    \<and> cr (apply_growth_mortality growing_tree) = 25 / 42
    \<and> 0 \<le> cr (apply_growth_mortality growing_tree)
    \<and> cr (apply_growth_mortality growing_tree) \<le> 1)
   \<and> (0 < ht clamped_tree + dht clamped_tree \<and> 0 \<le> hcb clamped_tree + dhcb clamped_tree
    \<and> ht clamped_tree + dht clamped_tree < hcb clamped_tree + dhcb clamped_tree
    \<and> ht (apply_growth_mortality clamped_tree) = 8.4
    \<and> hcb (apply_growth_mortality clamped_tree) = 8.4
    \<and> hcb (apply_growth_mortality clamped_tree) \<le> ht (apply_growth_mortality clamped_tree)
    \<and> cr (apply_growth_mortality clamped_tree) = 0
    \<and> 0 \<le> cr (apply_growth_mortality clamped_tree)
    \<and> cr (apply_growth_mortality clamped_tree) \<le> 1)"
proof -
  have v: "ht (apply_growth_mortality growing_tree) = 8.4"
    "hcb (apply_growth_mortality growing_tree) = 3.4"
    "ht (apply_growth_mortality clamped_tree) = 8.4"
    "hcb (apply_growth_mortality clamped_tree) = 8.4"
    by (simp_all add: apply_growth_mortality_def Let_def reset_def compute_mca_def
          compute_lcw_def compute_mcw_def growing_tree_def clamped_tree_def fir_tree_def)
  have p: "0 < ht fir_tree + dht fir_tree" "0 \<le> hcb fir_tree + dhcb fir_tree"
    "0 < ht growing_tree + dht growing_tree" "0 \<le> hcb growing_tree + dhcb growing_tree"
    "0 < ht clamped_tree + dht clamped_tree" "0 \<le> hcb clamped_tree + dhcb clamped_tree"
    "ht clamped_tree + dht clamped_tree < hcb clamped_tree + dhcb clamped_tree"
    by (simp_all add: growing_tree_def clamped_tree_def fir_tree_def)
  from C7_crown_base_bound[of fir_tree] C7_crown_base_bound[of growing_tree]
    C7_crown_base_bound[of clamped_tree]
  show ?thesis using p unfolding v by simp
qed


subsection \<open>Basal area in larger trees\<close>

lemma idx_sum_Nil [simp]: "idx_sum f ts [] = 0"
  by (simp add: idx_sum_def)

lemma idx_sum_snoc [simp]: "idx_sum f ts (P @ [i]) = idx_sum f ts P + f (ts ! i)"
  by (simp add: idx_sum_def)

lemma idx_sum_cong:
  "(\<And>k. k \<in> set P \<Longrightarrow> f (ts ! k) = g (ts ! k)) \<Longrightarrow> idx_sum f ts P = idx_sum g ts P"
  unfolding idx_sum_def by (induction P) auto

lemma trees_bal_totals [simp]: "trees (bal_totals t s) = trees s"
  by (simp add: bal_totals_def Let_def)

lemma idx_sum_larger_all:
  assumes "\<And>k. k \<in> set P \<Longrightarrow> Q (ts ! k) \<Longrightarrow> d < dbh (ts ! k)"
  shows "idx_sum (larger_ba Q d) ts P = idx_sum (\<lambda>t. if Q t then ba t else 0) ts P"
  by (rule idx_sum_cong) (use assms in \<open>auto simp: larger_ba_def\<close>)

lemma bal_step_inv:
  assumes inv: "bal_inv ts0 P l (trees s)"
    and i: "i < length ts0" "i \<notin> set P"
    and le: "dbh (ts0 ! i) \<le> last_dbh l" "dbh (ts0 ! i) \<le> last_sw_dbh l"
  shows "\<exists>l' s'. bal_step i (l, s) = Inr (l', s') \<and> bal_inv ts0 (P @ [i]) l' (trees s')
           \<and> last_dbh l' = dbh (ts0 ! i)
           \<and> (last_sw_dbh l' = dbh (ts0 ! i) \<or> last_sw_dbh l' = last_sw_dbh l)"
proof -
  let ?t = "trees s ! i"
  have len: "length (trees s) = length ts0" using inv by (simp add: bal_inv_def)
  have same: "dbh ?t = dbh (ts0 ! i)" "ba ?t = ba (ts0 ! i)" "softwood ?t = softwood (ts0 ! i)"
    using inv i by (simp_all add: bal_inv_def)
  have ne: "\<And>k. k \<in> set P \<Longrightarrow> k \<noteq> i" using i by auto
  have a1: "dbh (ts0 ! i) < last_dbh l \<Longrightarrow>
        idx_sum ba ts0 P = idx_sum (larger_ba (\<lambda>_. True) (dbh (ts0 ! i))) ts0 P"
    using idx_sum_larger_all[of P "\<lambda>_. True" ts0 "dbh (ts0 ! i)"] inv
    by (fastforce simp: bal_inv_def)
  have a2: "dbh (ts0 ! i) < last_sw_dbh l \<Longrightarrow>
        idx_sum (\<lambda>t. if softwood t then ba t else 0) ts0 P
          = idx_sum (larger_ba softwood (dbh (ts0 ! i))) ts0 P"
    using idx_sum_larger_all[of P softwood ts0 "dbh (ts0 ! i)"] inv
    by (fastforce simp: bal_inv_def)
  have z1: "\<And>k. k \<in> set P \<Longrightarrow> larger_ba (\<lambda>_. True) (dbh (ts0 ! k)) (ts0 ! i) = 0"
    using inv le by (fastforce simp: bal_inv_def larger_ba_def)
  have z2: "\<And>k. k \<in> set P \<Longrightarrow> softwood (ts0 ! k) \<Longrightarrow> larger_ba softwood (dbh (ts0 ! k)) (ts0 ! i) = 0"
    using inv le by (fastforce simp: bal_inv_def larger_ba_def)
  have g1: "\<And>k. k \<in> set P \<Longrightarrow> dbh (ts0 ! i) \<le> dbh (ts0 ! k)"
    using inv le by (fastforce simp: bal_inv_def)
  have g2: "\<And>k. k \<in> set P \<Longrightarrow> softwood (ts0 ! k) \<Longrightarrow> dbh (ts0 ! i) \<le> dbh (ts0 ! k)"
    using inv le by (fastforce simp: bal_inv_def)
  consider (lt_sw_lt) "dbh (ts0 ! i) < last_dbh l" "softwood (ts0 ! i)" "dbh (ts0 ! i) < last_sw_dbh l"
    | (lt_sw_eq) "dbh (ts0 ! i) < last_dbh l" "softwood (ts0 ! i)" "dbh (ts0 ! i) = last_sw_dbh l"
    | (lt_hw) "dbh (ts0 ! i) < last_dbh l" "\<not> softwood (ts0 ! i)"
    | (eq_sw_lt) "dbh (ts0 ! i) = last_dbh l" "softwood (ts0 ! i)" "dbh (ts0 ! i) < last_sw_dbh l"
    | (eq_sw_eq) "dbh (ts0 ! i) = last_dbh l" "softwood (ts0 ! i)" "dbh (ts0 ! i) = last_sw_dbh l"
    | (eq_hw) "dbh (ts0 ! i) = last_dbh l" "\<not> softwood (ts0 ! i)"
    using le by fastforce
  then show ?thesis
  proof cases
    case lt_sw_lt
    then show ?thesis using inv i same len a1 a2 z1 z2 ne le g1 g2
      by (simp add: bal_step_def bal_rank_all_def bal_rank_sw_def Let_def bal_inv_def larger_ba_def nth_list_update)
  next
    case lt_sw_eq
    then show ?thesis using inv i same len a1 a2 z1 z2 ne le g1 g2
      by (simp add: bal_step_def bal_rank_all_def bal_rank_sw_def Let_def bal_inv_def larger_ba_def nth_list_update)
  next
    case lt_hw
    then show ?thesis using inv i same len a1 a2 z1 z2 ne le g1 g2
      by (simp add: bal_step_def bal_rank_all_def bal_rank_sw_def Let_def bal_inv_def larger_ba_def nth_list_update)
  next
    case eq_sw_lt
    then show ?thesis using inv i same len a1 a2 z1 z2 ne le g1 g2
      by (simp add: bal_step_def bal_rank_all_def bal_rank_sw_def Let_def bal_inv_def larger_ba_def nth_list_update)
  next
    case eq_sw_eq
    then show ?thesis using inv i same len a1 a2 z1 z2 ne le g1 g2
      by (simp add: bal_step_def bal_rank_all_def bal_rank_sw_def Let_def bal_inv_def larger_ba_def nth_list_update)
  next
    case eq_hw
    then show ?thesis using inv i same len a1 a2 z1 z2 ne le g1 g2
      by (simp add: bal_step_def bal_rank_all_def bal_rank_sw_def Let_def bal_inv_def larger_ba_def nth_list_update)
  qed
qed


lemma bal_loop_inv:
  assumes "bal_inv ts0 P l (trees s)"
    and "\<forall>r\<in>set R. dbh (ts0 ! r) \<le> last_dbh l \<and> dbh (ts0 ! r) \<le> last_sw_dbh l"
    and "sorted (map (\<lambda>i. - dbh (ts0 ! i)) R)"
    and "distinct (P @ R)"
    and "\<forall>r\<in>set R. r < length ts0"
  shows "\<exists>l' s'. bal_loop R (l, s) = Inr (l', s') \<and> bal_inv ts0 (P @ R) l' (trees s')"
  using assms
proof (induction R arbitrary: P l s)
  case Nil
  then show ?case by simp
next
  case (Cons i R)
  from Cons.prems obtain l1 s1 where
    step: "bal_step i (l, s) = Inr (l1, s1)" and
    inv1: "bal_inv ts0 (P @ [i]) l1 (trees s1)" and
    last1: "last_dbh l1 = dbh (ts0 ! i)" and
    last_sw1: "last_sw_dbh l1 = dbh (ts0 ! i) \<or> last_sw_dbh l1 = last_sw_dbh l"
    using bal_step_inv[of ts0 P l s i] by auto
  have below: "\<forall>r\<in>set R. dbh (ts0 ! r) \<le> dbh (ts0 ! i)"
    using Cons.prems(3) by simp
  have "\<forall>r\<in>set R. dbh (ts0 ! r) \<le> last_dbh l1 \<and> dbh (ts0 ! r) \<le> last_sw_dbh l1"
    using below last1 last_sw1 Cons.prems(2) by auto
  moreover have "sorted (map (\<lambda>i. - dbh (ts0 ! i)) R)" using Cons.prems(3) by simp
  moreover have "distinct ((P @ [i]) @ R)" using Cons.prems(4) by simp
  moreover have "\<forall>r\<in>set R. r < length ts0" using Cons.prems(5) by simp
  ultimately obtain l' s' where
    "bal_loop R (l1, s1) = Inr (l', s')" "bal_inv ts0 ((P @ [i]) @ R) l' (trees s')"
    using Cons.IH[OF inv1] by blast
  then show ?case using step by simp
qed

lemma sort_indices_perm:
  "distinct (sort_indices v b)" "set (sort_indices v b) = {0..<length v}"
  by (simp_all add: sort_indices_def)

lemma sort_indices_dbh_sorted:
  "sorted (map (\<lambda>i. - dbh (v ! i)) (sort_indices v True))"
  using sorted_sort_key[of "\<lambda>i. - dbh (v ! i)" "rev [0..<length v]"]
  by (simp add: sort_indices_def)


lemma idx_sum_perm:
  assumes "distinct idx" "set idx = {0..<length ts}"
  shows "idx_sum f ts idx = sum_list (map f ts)"
proof -
  have "idx_sum f ts idx = sum (\<lambda>k. f (ts ! k)) (set idx)"
    unfolding idx_sum_def using assms(1) by (rule sum_list_distinct_conv_sum_set)
  also have "\<dots> = sum (\<lambda>k. f (ts ! k)) (set [0..<length ts])" using assms(2) by simp
  also have "\<dots> = sum_list (map (\<lambda>k. f (ts ! k)) [0..<length ts])"
    by (rule sum_list_distinct_conv_sum_set[symmetric]) simp
  also have "map (\<lambda>k. f (ts ! k)) [0..<length ts] = map f ts"
    by (rule nth_equalityI) simp_all
  finally show ?thesis .
qed

lemma ba_in_larger_sum: "ba_in_larger Q d ts = sum_list (map (larger_ba Q d) ts)"
  unfolding ba_in_larger_def by (induction ts) (simp_all add: larger_ba_def)

lemma bal_inv_init:
  "bal_inv ts [] \<lparr> run_bal_sw = 0, run_bal = 0, last_sw_dbh = 9999, last_dbh = 9999,
                  pending_sw = 0, pending = 0 \<rparr> ts"
  by (simp add: bal_inv_def)

lemma compute_ba_tph_bal_ok:
  assumes "\<forall>t\<in>set (trees s). dbh t \<le> 9999"
  shows "\<exists>s'. compute_ba_tph_bal s = Inr s' \<and> length (trees s') = length (trees s) \<and>
           (\<forall>i<length (trees s).
               dbh (trees s' ! i) = dbh (trees s ! i) \<and>
               softwood (trees s' ! i) = softwood (trees s ! i) \<and>
               bal (trees s' ! i) = ba_in_larger (\<lambda>_. True) (dbh (trees s ! i)) (trees s) \<and>
               (softwood (trees s ! i) \<longrightarrow>
                  bal_sw (trees s' ! i) = ba_in_larger softwood (dbh (trees s ! i)) (trees s)))"
proof -
  let ?ts = "trees s"
  let ?idx = "sort_indices ?ts True"
  let ?l0 = "\<lparr> run_bal_sw = 0, run_bal = 0, last_sw_dbh = 9999, last_dbh = 9999,
                 pending_sw = 0, pending = 0 \<rparr>"
  let ?s0 = "s\<lparr> stand_ba := 0, ba_sw := 0, ba_hw := 0, bf_ba := 0, ithw_ba := 0,
                  stand_tph := 0 \<rparr>"
  have t0: "trees ?s0 = ?ts" by simp
  have rng: "\<forall>r\<in>set ?idx. r < length ?ts" by (simp add: sort_indices_perm)
  have "\<forall>r\<in>set ?idx. dbh (?ts ! r) \<le> 9999" using assms rng by auto
  then have "\<forall>r\<in>set ?idx. dbh (?ts ! r) \<le> last_dbh ?l0 \<and> dbh (?ts ! r) \<le> last_sw_dbh ?l0"
    by simp
  moreover have "bal_inv ?ts [] ?l0 (trees ?s0)" unfolding t0 by (rule bal_inv_init)
  moreover have "distinct ([] @ ?idx)" by (simp add: sort_indices_perm)
  ultimately obtain l' s1 where
    loop: "bal_loop ?idx (?l0, ?s0) = Inr (l', s1)" and inv: "bal_inv ?ts ([] @ ?idx) l' (trees s1)"
    using bal_loop_inv[of ?ts "[]" ?l0 ?s0 ?idx] sort_indices_dbh_sorted[of ?ts] rng by blast
  let ?s' = "s1\<lparr> qmd := (if stand_tph s1 > 0
                                then sqrt (stand_ba s1 / stand_tph s1 / 0.00007854) else 0) \<rparr>"
  have res: "compute_ba_tph_bal s = Inr ?s'"
    using loop by (simp add: compute_ba_tph_bal_def Let_def)
  have sums: "\<And>Q d. idx_sum (larger_ba Q d) ?ts ?idx = ba_in_larger Q d ?ts"
    by (simp add: ba_in_larger_sum idx_sum_perm sort_indices_perm)
  have mem: "\<And>i. i < length ?ts \<Longrightarrow> i \<in> set ?idx" by (simp add: sort_indices_perm)
  show ?thesis
    using inv mem unfolding res by (simp add: bal_inv_def sums)
qed

lemma compute_ba_tph_bal_fails:
  assumes "\<exists>t\<in>set (trees s). 9999 < dbh t"
  shows "compute_ba_tph_bal s = Inl terminate"
proof -
  let ?ts = "trees s"
  let ?idx = "sort_indices ?ts True"
  from assms obtain k where k: "k < length ?ts" "9999 < dbh (?ts ! k)"
    by (auto simp: in_set_conv_nth)
  then have "k \<in> set ?idx" by (simp add: sort_indices_perm)
  then obtain i R where idx: "?idx = i # R" by (cases ?idx) auto
  have "\<forall>r\<in>set R. dbh (?ts ! r) \<le> dbh (?ts ! i)"
    using sort_indices_dbh_sorted[of ?ts] unfolding idx by simp
  with \<open>k \<in> set ?idx\<close> k(2) have big: "9999 < dbh (?ts ! i)" unfolding idx by auto
  show ?thesis
    using big unfolding compute_ba_tph_bal_def Let_def
    by (simp add: idx bal_step_def bal_rank_all_def Let_def)
qed

text \<open>
  C1. \<open>compute_ba_tph_bal\<close> returns when no diameter exceeds 9999 (the initial value
  of \<open>last_dbh\<close>). When it returns, every tree keeps its diameter and species group
  and its \<open>bal\<close> is the sum of the basal areas of all trees of strictly greater
  diameter; for a softwood, \<open>bal_sw\<close> is that sum over the softwoods. Hence two trees
  of equal diameter have the same \<open>bal\<close>, and two softwoods of equal diameter the same
  \<open>bal_sw\<close>.
\<close>

theorem C1_bal_tie_invariant:
  "(list_all (\<lambda>t. dbh t \<le> 9999) (trees s) \<longrightarrow> (\<exists>s'. compute_ba_tph_bal s = Inr s'))
   \<and> (compute_ba_tph_bal s = Inr s' \<longrightarrow>
        length (trees s') = length (trees s) \<and>
        (\<forall>i<length (trees s).
           dbh (trees s' ! i) = dbh (trees s ! i) \<and>
           softwood (trees s' ! i) = softwood (trees s ! i) \<and>
           bal (trees s' ! i) = ba_in_larger (\<lambda>_. True) (dbh (trees s ! i)) (trees s) \<and>
           (softwood (trees s ! i) \<longrightarrow>
              bal_sw (trees s' ! i) = ba_in_larger softwood (dbh (trees s ! i)) (trees s))) \<and>
        (\<forall>i<length (trees s). \<forall>j<length (trees s).
           dbh (trees s' ! i) = dbh (trees s' ! j) \<longrightarrow>
             bal (trees s' ! i) = bal (trees s' ! j) \<and>
             (softwood (trees s' ! i) \<and> softwood (trees s' ! j) \<longrightarrow>
                bal_sw (trees s' ! i) = bal_sw (trees s' ! j))))"
proof (intro conjI impI)
  assume "list_all (\<lambda>t. dbh t \<le> 9999) (trees s)"
  then show "\<exists>s'. compute_ba_tph_bal s = Inr s'"
    using compute_ba_tph_bal_ok[of s] by (auto simp: list_all_iff)
next
  assume r: "compute_ba_tph_bal s = Inr s'"
  have "\<forall>t\<in>set (trees s). dbh t \<le> 9999"
  proof (rule ccontr)
    assume "\<not> ?thesis"
    then have "\<exists>t\<in>set (trees s). 9999 < dbh t" by (auto simp: not_le)
    from compute_ba_tph_bal_fails[OF this] r show False by simp
  qed
  from compute_ba_tph_bal_ok[OF this] r
  have ok: "length (trees s') = length (trees s) \<and>
           (\<forall>i<length (trees s).
               dbh (trees s' ! i) = dbh (trees s ! i) \<and>
               softwood (trees s' ! i) = softwood (trees s ! i) \<and>
               bal (trees s' ! i) = ba_in_larger (\<lambda>_. True) (dbh (trees s ! i)) (trees s) \<and>
               (softwood (trees s ! i) \<longrightarrow>
                  bal_sw (trees s' ! i) = ba_in_larger softwood (dbh (trees s ! i)) (trees s)))"
    by auto
  then show "length (trees s') = length (trees s)" by simp
  from ok show "\<forall>i<length (trees s).
           dbh (trees s' ! i) = dbh (trees s ! i) \<and>
           softwood (trees s' ! i) = softwood (trees s ! i) \<and>
           bal (trees s' ! i) = ba_in_larger (\<lambda>_. True) (dbh (trees s ! i)) (trees s) \<and>
           (softwood (trees s ! i) \<longrightarrow>
              bal_sw (trees s' ! i) = ba_in_larger softwood (dbh (trees s ! i)) (trees s))"
    by simp
  from ok show "\<forall>i<length (trees s). \<forall>j<length (trees s).
           dbh (trees s' ! i) = dbh (trees s' ! j) \<longrightarrow>
             bal (trees s' ! i) = bal (trees s' ! j) \<and>
             (softwood (trees s' ! i) \<and> softwood (trees s' ! j) \<longrightarrow>
                bal_sw (trees s' ! i) = bal_sw (trees s' ! j))"
    by simp
qed


theorem C1_bal_tie_invariant_witness:
  "list_all (\<lambda>t. dbh t \<le> 9999) (trees tie_stand)
   \<and> (\<exists>s'. compute_ba_tph_bal tie_stand = Inr s'
          \<and> dbh (trees s' ! 0) = dbh (trees s' ! 2)
          \<and> bal (trees s' ! 0) = 2.19912 \<and> bal (trees s' ! 2) = 2.19912
          \<and> bal (trees s' ! 1) = 0
          \<and> bal_sw (trees s' ! 0) = 0 \<and> bal_sw (trees s' ! 2) = 0)"
proof -
  have h: "list_all (\<lambda>t. dbh t \<le> 9999) (trees tie_stand)"
    by (simp add: tie_stand_def fir_tree_def)
  with C1_bal_tie_invariant[of tie_stand] obtain s' where
    r: "compute_ba_tph_bal tie_stand = Inr s'" by blast
  have l: "length (trees tie_stand) = 3" by (simp add: tie_stand_def)
  have e: "trees tie_stand ! 0 = fir_tree"
    "trees tie_stand ! Suc 0 = fir_tree\<lparr> tree_id := 2, spp := 316, dbh := 20, ht := 15, tph := 70,
                                       ba := 2.19912, softwood := False \<rparr>"
    "trees tie_stand ! 2 = fir_tree\<lparr> tree_id := 3, ht := 3, tph := 100, ba := 0.7854 \<rparr>"
    by (simp_all add: tie_stand_def)
  have v: "ba_in_larger (\<lambda>_. True) 10 (trees tie_stand) = 2.19912"
    "ba_in_larger (\<lambda>_. True) 20 (trees tie_stand) = 0"
    "ba_in_larger softwood 10 (trees tie_stand) = 0"
    by (simp_all add: ba_in_larger_def tie_stand_def fir_tree_def)
  have d: "dbh fir_tree = 10" "softwood fir_tree" by (simp_all add: fir_tree_def)
  from C1_bal_tie_invariant[of tie_stand s'] r l
  have "\<forall>i<3. dbh (trees s' ! i) = dbh (trees tie_stand ! i) \<and>
               bal (trees s' ! i) = ba_in_larger (\<lambda>_. True) (dbh (trees tie_stand ! i)) (trees tie_stand) \<and>
               (softwood (trees tie_stand ! i) \<longrightarrow>
                  bal_sw (trees s' ! i) = ba_in_larger softwood (dbh (trees tie_stand ! i)) (trees tie_stand))"
    by simp
  then have "dbh (trees s' ! 0) = dbh (trees s' ! 2)
          \<and> bal (trees s' ! 0) = 2.19912 \<and> bal (trees s' ! 2) = 2.19912
          \<and> bal (trees s' ! 1) = 0
          \<and> bal_sw (trees s' ! 0) = 0 \<and> bal_sw (trees s' ! 2) = 0"
    by (simp add: e v d)
  with h r show ?thesis by blast
qed

subsection \<open>Top height\<close>






text \<open>
  A density is not negative: the constructor takes it from the caller, and
  \<open>apply_growth_mortality\<close> takes away at most what is there.
\<close>

lemma apply_growth_mortality_tph_nonneg:
  "0 \<le> tph t \<Longrightarrow> 0 \<le> tph (apply_growth_mortality t)"
  by (simp add: apply_growth_mortality_def Let_def reset_def compute_mca_def compute_lcw_def
        compute_mcw_def)




subsection \<open>Ingrowth allocation\<close>

lemma alist_get_Nil [simp]: "alist_get [] k = 0"
  by (simp add: alist_get_def)

lemma alist_get_Cons: "alist_get ((k, w) # m) k' = (if k' = k then w else alist_get m k')"
  by (simp add: alist_get_def)

lemma alist_get_add: "alist_get (alist_add k v m) k' = alist_get m k' + (if k' = k then v else 0)"
  by (induction m) (auto simp: alist_get_Cons)

lemma alist_get_touch [simp]: "alist_get (alist_touch k m) k' = alist_get m k'"
  by (auto simp: alist_get_def alist_touch_def map_of_append split: option.splits if_splits)

lemma keys_alist_add:
  "map fst (alist_add k v m) = (if k \<in> set (map fst m) then map fst m else map fst m @ [k])"
  by (induction m) force+

lemma alist_add_fresh: "k \<notin> set (map fst m) \<Longrightarrow> alist_add k v m = m @ [(k, v)]"
  by (induction m) auto

lemma distinct_alist_add: "distinct (map fst m) \<Longrightarrow> distinct (map fst (alist_add k v m))"
  by (simp add: keys_alist_add)

lemma alist_get_mem: "distinct (map fst m) \<Longrightarrow> (k, w) \<in> set m \<Longrightarrow> alist_get m k = w"
  by (simp add: alist_get_def)

lemma alist_add_nonneg:
  "list_all (\<lambda>(k, w). 0 \<le> w) m \<Longrightarrow> 0 \<le> v \<Longrightarrow> list_all (\<lambda>(k, w). 0 \<le> w) (alist_add k v m)"
  by (induction m) auto

lemma alist_get_nonneg: "list_all (\<lambda>(k, w). 0 \<le> w) m \<Longrightarrow> 0 \<le> alist_get m k"
  by (induction m) (auto simp: alist_get_Cons)

lemma group_total_add:
  "group_total (alist_add k v m) g = group_total m g + (if map_of cross_walk k = Some g then v else 0)"
  by (induction m) (auto simp: group_total_def)

lemma plot_total_add:
  "plot_total (plot_add p k v ps) k' = plot_total ps k' + (if k' = k then v else 0)"
  by (induction ps) (auto simp: plot_total_def alist_get_add alist_get_Cons)

lemma plot_add_nonneg:
  "list_all (\<lambda>(p, m). list_all (\<lambda>(k, w). 0 \<le> w) m) ps \<Longrightarrow> 0 \<le> v \<Longrightarrow>
   list_all (\<lambda>(p, m). list_all (\<lambda>(k, w). 0 \<le> w) m) (plot_add p k v ps)"
  by (induction ps) (auto simp: alist_add_nonneg)

lemma cross_walk_fallback:
  "map_of cross_walk 9990 = Some 9990" "map_of cross_walk 9991 = Some 9991"
  by (simp_all add: cross_walk_def)

lemma build_step_key:
  "\<exists>k g. map_of cross_walk k = Some g \<and>
      build_step s t = s\<lparr> ba_spp := alist_add k (ba t) (ba_spp s),
             ba_grp_spp := alist_add g (ba t) (ba_grp_spp s),
             plot_species_ba := plot_add (ucast (plot_id t)) k (ba t) (plot_species_ba s) \<rparr>"
proof (cases "map_of cross_walk (spp t)")
  case None
  then show ?thesis
    using cross_walk_fallback by (cases "softwood t") (auto simp: build_step_def Let_def)
next
  case (Some g)
  then show ?thesis by (auto simp: build_step_def)
qed

lemma build_step_inv:
  assumes "maps_inv s" "0 \<le> ba t"
  shows "maps_inv (build_step s t) \<and> trees (build_step s t) = trees s"
proof -
  obtain k g where cw: "map_of cross_walk k = Some g" and
    eq: "build_step s t = s\<lparr> ba_spp := alist_add k (ba t) (ba_spp s),
             ba_grp_spp := alist_add g (ba t) (ba_grp_spp s),
             plot_species_ba := plot_add (ucast (plot_id t)) k (ba t) (plot_species_ba s) \<rparr>"
    using build_step_key by blast
  have keys: "\<forall>k'\<in>set (map fst (alist_add k (ba t) (ba_spp s))).
                \<exists>g'\<in>set (map fst (alist_add g (ba t) (ba_grp_spp s))). map_of cross_walk k' = Some g'"
    using assms(1) cw unfolding maps_inv_def keys_alist_add by (auto split: if_splits)
  show ?thesis
    unfolding eq using assms keys cw
    by (simp add: maps_inv_def distinct_alist_add alist_add_nonneg plot_add_nonneg
          group_total_add plot_total_add alist_get_add)
qed

lemma build_inv:
  assumes "maps_inv s" "list_all (\<lambda>t. 0 \<le> ba t) ts"
  shows "maps_inv (foldl build_step s ts) \<and> trees (foldl build_step s ts) = trees s"
  using assms
proof (induction ts arbitrary: s rule: rev_induct)
  case Nil
  then show ?case by simp
next
  case (snoc t ts)
  then have "maps_inv (foldl build_step s ts)" "trees (foldl build_step s ts) = trees s" by simp_all
  with build_step_inv[of "foldl build_step s ts" t] snoc.prems(2) show ?case by simp
qed

lemma group_percent_pos: "0 < group_percent s g sba"
  by (simp add: group_percent_def Let_def add_pos_pos)

lemma group_loop_eq:
  "distinct (map fst m) \<Longrightarrow> set (map fst m) \<inter> set (map fst acc) = {} \<Longrightarrow>
   group_loop s m (acc, tot) =
     (acc @ map (\<lambda>(g, sba). (g, group_percent s g sba)) m,
      tot + sum_list (map (\<lambda>(g, sba). group_percent s g sba) m))"
proof (induction m arbitrary: acc tot)
  case Nil
  then show ?case by simp
next
  case (Cons x m)
  obtain g sba where x: "x = (g, sba)" by (cases x)
  have fresh: "g \<notin> set (map fst acc)" using Cons.prems(2) x by auto
  have d: "distinct (map fst m)" using Cons.prems(1) by simp
  have disj: "set (map fst m) \<inter> set (map fst (acc @ [(g, group_percent s g sba)])) = {}"
    using Cons.prems x by auto
  show ?case
    unfolding x using Cons.IH[OF d disj] by (simp add: alist_add_fresh[OF fresh] add.assoc)
qed

lemma alist_get_map:
  "distinct (map fst m) \<Longrightarrow> (g, w) \<in> set m \<Longrightarrow>
   alist_get (map (\<lambda>(g, sba). (g, f g sba)) m) g = f g w"
proof (induction m)
  case Nil then show ?case by simp
next
  case (Cons x m)
  obtain g' w' where x: "x = (g', w')" by (cases x)
  show ?case using Cons unfolding x by (auto simp: alist_get_Cons rev_image_eqI)
qed

lemma sum_list_cong_mem:
  "(\<And>x. x \<in> set xs \<Longrightarrow> f x = g x) \<Longrightarrow> sum_list (map f xs) = sum_list (map g xs)"
  by (induction xs) auto

lemma normalized_total:
  fixes s :: STAND and m :: "(int \<times> real) list" and IPH :: real
  assumes d: "distinct (map fst m)" and ne: "m \<noteq> []"
  shows "sum_list (map (\<lambda>(g, w). alist_get
            (normalize_percent (sum_list (map (\<lambda>(g, sba). group_percent s g sba) m)) IPH
               (map (\<lambda>(g, sba). (g, group_percent s g sba)) m)) g) m) = IPH"
proof -
  define tot where "tot = sum_list (map (\<lambda>(g, sba). group_percent s g sba) m)"
  define sgp where "sgp = normalize_percent tot IPH (map (\<lambda>(g, sba). (g, group_percent s g sba)) m)"
  have pos: "0 < tot"
    unfolding tot_def using ne
  proof (induction m)
    case Nil then show ?case by simp
  next
    case (Cons x m)
    obtain g w where x: "x = (g, w)" by (cases x)
    have "0 \<le> sum_list (map (\<lambda>(g, sba). group_percent s g sba) m)"
      by (rule sum_list_nonneg) (auto simp: less_imp_le[OF group_percent_pos])
    then show ?case unfolding x using group_percent_pos[of s g w] by simp
  qed
  have sgp': "sgp = map (\<lambda>(g, sba). (g, group_percent s g sba / tot * IPH)) m"
    by (simp add: sgp_def normalize_percent_def case_prod_unfold)
  have "sum_list (map (\<lambda>(g, w). alist_get sgp g) m)
        = sum_list (map (\<lambda>(g, w). group_percent s g w / tot * IPH) m)"
    by (rule sum_list_cong_mem) (auto simp: sgp' alist_get_map[OF d])
  also have "\<dots> = sum_list (map (\<lambda>x. (case x of (g, w) \<Rightarrow> group_percent s g w) * (IPH / tot)) m)"
    by (simp add: case_prod_unfold)
  also have "\<dots> = tot * (IPH / tot)"
    unfolding tot_def by (rule sum_list_mult_const)
  finally show ?thesis using pos unfolding sgp_def tot_def by simp
qed

lemma tph_compute_attributes [simp]: "tph (compute_attributes t) = tph t"
  by (simp add: compute_attributes_def compute_mca_def compute_lcw_def compute_mcw_def)

lemma TREE_ctor_ok:
  "tab k \<noteq> None \<Longrightarrow> \<exists>t. TREE_ctor tab p i k d h x c f r = Inr t \<and> tph t = x"
  by (auto simp: TREE_ctor_def)

lemma plot_loop_ok:
  assumes "tab k \<noteq> None"
  shows "\<exists>ps' new mx'. plot_loop tab md k sba a ps (ts, mx) = Inr (ps', ts @ new, mx')
           \<and> sum_list (map tph new) = plot_sum k sba a ps \<and> plots_equiv ps ps'"
proof (induction ps arbitrary: ts mx)
  case Nil
  then show ?case by (simp add: plot_sum_def plots_equiv_def)
next
  case (Cons x ps)
  obtain plot psba where x: "x = (plot, psba)" by (cases x)
  show ?case
  proof (cases "alist_get psba k / sba > 0")
    case True
    obtain t where t: "TREE_ctor tab (scast plot) (mx + 1) k md 0 (a * (alist_get psba k / sba)) 0 0 0 = Inr t"
      "tph t = a * (alist_get psba k / sba)"
      using TREE_ctor_ok[of tab k] assms by blast
    obtain ps' new mx' where
      r: "plot_loop tab md k sba a ps (ts @ [t], mx + 1) = Inr (ps', (ts @ [t]) @ new, mx')"
      "sum_list (map tph new) = plot_sum k sba a ps" "plots_equiv ps ps'"
      using Cons.IH[of "ts @ [t]" "mx + 1"] by blast
    have "plot_loop tab md k sba a (x # ps) (ts, mx)
            = Inr ((plot, alist_touch k psba) # ps', ts @ (t # new), mx')"
      unfolding x using True t(1) r(1) by (simp add: Let_def)
    moreover have "sum_list (map tph (t # new)) = plot_sum k sba a (x # ps)"
      unfolding x using True t(2) r(2) by (simp add: plot_sum_def)
    moreover have "plots_equiv (x # ps) ((plot, alist_touch k psba) # ps')"
      unfolding x using r(3) by (simp add: plots_equiv_def)
    ultimately show ?thesis by blast
  next
    case False
    obtain ps' new mx' where
      r: "plot_loop tab md k sba a ps (ts, mx) = Inr (ps', ts @ new, mx')"
      "sum_list (map tph new) = plot_sum k sba a ps" "plots_equiv ps ps'"
      using Cons.IH[of ts mx] by blast
    have "plot_loop tab md k sba a (x # ps) (ts, mx)
            = Inr ((plot, alist_touch k psba) # ps', ts @ new, mx')"
      unfolding x using False r(1) by (simp add: Let_def)
    moreover have "sum_list (map tph new) = plot_sum k sba a (x # ps)"
      unfolding x using False r(2) by (simp add: plot_sum_def)
    moreover have "plots_equiv (x # ps) ((plot, alist_touch k psba) # ps')"
      unfolding x using r(3) by (simp add: plots_equiv_def)
    ultimately show ?thesis by blast
  qed
qed

lemma plot_sum_equiv: "plots_equiv ps ps' \<Longrightarrow> plot_sum k sba a ps' = plot_sum k sba a ps"
  unfolding plots_equiv_def plot_sum_def
  by (induction ps ps' rule: list_all2_induct) (auto simp: case_prod_unfold)

lemma spp_sum_equiv:
  assumes "plots_equiv ps ps'" "\<forall>g. alist_get grp' g = alist_get grp g"
  shows "spp_sum sgp grp' ps' m = spp_sum sgp grp ps m"
  using assms by (simp add: spp_sum_def spp_alloc_def plot_sum_equiv)

lemma species_loop_ok:
  assumes "\<forall>k\<in>set (map fst m). tab k \<noteq> None \<and> map_of cross_walk k \<noteq> None"
  shows "\<exists>grp' ps' new mx'.
           species_loop tab md sgp m (grp, ps, ts, mx) = Inr (grp', ps', ts @ new, mx')
           \<and> sum_list (map tph new) = spp_sum sgp grp ps m"
  using assms
proof (induction m arbitrary: grp ps ts mx)
  case Nil
  then show ?case by (simp add: spp_sum_def)
next
  case (Cons x m)
  obtain k sba where x: "x = (k, sba)" by (cases x)
  from Cons.prems x obtain g where g: "map_of cross_walk k = Some g" and tk: "tab k \<noteq> None"
    by auto
  let ?grp = "alist_touch g grp"
  let ?a = "alist_get sgp g * sba / alist_get ?grp g"
  have a: "?a = spp_alloc sgp grp k sba" by (simp add: spp_alloc_def g)
  obtain ps1 new1 mx1 where
    p: "plot_loop tab md k sba ?a ps (ts, mx) = Inr (ps1, ts @ new1, mx1)"
    "sum_list (map tph new1) = plot_sum k sba ?a ps" "plots_equiv ps ps1"
    using plot_loop_ok[of tab k] tk by blast
  have rest: "\<forall>k\<in>set (map fst m). tab k \<noteq> None \<and> map_of cross_walk k \<noteq> None"
    using Cons.prems by simp
  obtain grp' ps' new2 mx' where
    r: "species_loop tab md sgp m (?grp, ps1, ts @ new1, mx1) = Inr (grp', ps', (ts @ new1) @ new2, mx')"
    "sum_list (map tph new2) = spp_sum sgp ?grp ps1 m"
    using Cons.IH[OF rest, of ?grp ps1 "ts @ new1" mx1] by blast
  have "spp_sum sgp ?grp ps1 m = spp_sum sgp grp ps m"
    by (rule spp_sum_equiv[OF p(3)]) simp
  then have "sum_list (map tph (new1 @ new2)) = spp_sum sgp grp ps (x # m)"
    unfolding x using p(2) r(2) a by (simp add: spp_sum_def)
  moreover have "species_loop tab md sgp (x # m) (grp, ps, ts, mx) = Inr (grp', ps', ts @ (new1 @ new2), mx')"
    unfolding x using g p(1) r(1) by (simp add: Let_def)
  ultimately show ?case by blast
qed

lemma plot_sum_total:
  assumes "\<forall>x\<in>set ps. 0 \<le> alist_get (snd x) k" "0 < sba"
  shows "plot_sum k sba a ps = a * plot_total ps k / sba"
  using assms(1)
proof (induction ps)
  case Nil
  then show ?case by (simp add: plot_sum_def plot_total_def)
next
  case (Cons x ps)
  obtain p psba where x: "x = (p, psba)" by (cases x)
  have nn: "0 \<le> alist_get psba k" using Cons.prems x by simp
  have ih: "plot_sum k sba a ps = a * plot_total ps k / sba" using Cons by simp
  have "plot_sum k sba a (x # ps)
          = (if alist_get psba k / sba > 0 then a * (alist_get psba k / sba) else 0)
            + plot_sum k sba a ps"
    unfolding x by (simp add: plot_sum_def)
  also have "(if alist_get psba k / sba > 0 then a * (alist_get psba k / sba) else 0)
          = a * alist_get psba k / sba"
    using nn \<open>0 < sba\<close> by (cases "alist_get psba k = 0") (simp_all add: zero_less_divide_iff)
  finally show ?case
    unfolding x ih by (simp add: plot_total_def add_divide_distrib distrib_left)
qed

lemma one_match:
  "distinct (map fst m) \<Longrightarrow> g \<in> set (map fst m) \<Longrightarrow>
   sum_list (map (\<lambda>x. if fst x = g then (c::real) else 0) m) = c"
proof (induction m)
  case Nil then show ?case by simp
next
  case (Cons x m)
  show ?case
  proof (cases "fst x = g")
    case True
    then have "g \<notin> set (map fst m)" using Cons.prems(1) by auto
    then have "sum_list (map (\<lambda>x. if fst x = g then c else 0) m) = 0"
      by (induction m) auto
    then show ?thesis using True by simp
  next
    case False
    then show ?thesis using Cons by auto
  qed
qed

lemma group_total_Cons:
  "group_total ((k, sba) # m) g = (if map_of cross_walk k = Some g then sba else 0) + group_total m g"
  by (simp add: group_total_def)

lemma regroup:
  fixes F :: "int \<Rightarrow> real"
  assumes "distinct (map fst grp)"
    and "\<forall>k\<in>set (map fst m). \<exists>g\<in>set (map fst grp). map_of cross_walk k = Some g"
  shows "sum_list (map (\<lambda>(k, sba). F (the (map_of cross_walk k)) * sba) m)
         = sum_list (map (\<lambda>(g, w). F g * group_total m g) grp)"
  using assms(2)
proof (induction m)
  case Nil
  then show ?case by (simp add: group_total_def case_prod_unfold)
next
  case (Cons x m)
  obtain k sba where x: "x = (k, sba)" by (cases x)
  from Cons.prems x obtain g0 where g0: "g0 \<in> set (map fst grp)" "map_of cross_walk k = Some g0"
    by auto
  have ih: "sum_list (map (\<lambda>(k, sba). F (the (map_of cross_walk k)) * sba) m)
         = sum_list (map (\<lambda>(g, w). F g * group_total m g) grp)"
    using Cons by simp
  have "sum_list (map (\<lambda>(g, w). F g * group_total (x # m) g) grp)
        = sum_list (map (\<lambda>y. (if fst y = g0 then F g0 * sba else 0) + F (fst y) * group_total m (fst y)) grp)"
    unfolding x by (rule sum_list_cong_mem) (auto simp: group_total_Cons g0 distrib_left)
  also have "\<dots> = sum_list (map (\<lambda>y. if fst y = g0 then F g0 * sba else 0) grp)
                  + sum_list (map (\<lambda>y. F (fst y) * group_total m (fst y)) grp)"
    by (rule sum_list_addf)
  also have "sum_list (map (\<lambda>y. if fst y = g0 then F g0 * sba else 0) grp) = F g0 * sba"
    by (rule one_match[OF assms(1) g0(1)])
  also have "sum_list (map (\<lambda>y. F (fst y) * group_total m (fst y)) grp)
             = sum_list (map (\<lambda>(g, w). F g * group_total m g) grp)"
    by (simp add: case_prod_unfold)
  finally show ?case unfolding x using ih g0 by simp
qed

lemma plot_sum_zero: "plot_sum k 0 a ps = 0"
  by (induction ps) (auto simp: plot_sum_def)

lemma spp_sum_conserved:
  assumes inv: "maps_inv s" and ne: "ba_grp_spp s \<noteq> []"
    and pos: "list_all (\<lambda>(g, w). 0 < w) (ba_grp_spp s)"
  shows "spp_sum
           (normalize_percent (sum_list (map (\<lambda>(g, sba). group_percent s g sba) (ba_grp_spp s))) IPH
              (map (\<lambda>(g, sba). (g, group_percent s g sba)) (ba_grp_spp s)))
           (ba_grp_spp s) (plot_species_ba s) (ba_spp s) = IPH"
proof -
  define sgp where "sgp = normalize_percent (sum_list (map (\<lambda>(g, sba). group_percent s g sba) (ba_grp_spp s))) IPH
              (map (\<lambda>(g, sba). (g, group_percent s g sba)) (ba_grp_spp s))"
  define F where "F g = alist_get sgp g / alist_get (ba_grp_spp s) g" for g
  have dm: "distinct (map fst (ba_spp s))" and dg: "distinct (map fst (ba_grp_spp s))"
    using inv by (simp_all add: maps_inv_def)
  have posm: "\<And>k w. (k, w) \<in> set (ba_spp s) \<Longrightarrow> 0 \<le> w"
    using inv by (auto simp: maps_inv_def list_all_iff)
  have posg: "\<And>g w. (g, w) \<in> set (ba_grp_spp s) \<Longrightarrow> 0 < w"
    using pos by (auto simp: list_all_iff)
  have nnp: "\<forall>x\<in>set (plot_species_ba s). \<forall>k. 0 \<le> alist_get (snd x) k"
    using inv by (auto simp: maps_inv_def list_all_iff intro!: alist_get_nonneg)
  have keys: "\<forall>k\<in>set (map fst (ba_spp s)). \<exists>g\<in>set (map fst (ba_grp_spp s)). map_of cross_walk k = Some g"
    using inv by (simp add: maps_inv_def)
  have gt: "\<And>g. group_total (ba_spp s) g = alist_get (ba_grp_spp s) g"
    and pt: "\<And>k. plot_total (plot_species_ba s) k = alist_get (ba_spp s) k"
    using inv by (simp_all add: maps_inv_def)
  have "spp_sum sgp (ba_grp_spp s) (plot_species_ba s) (ba_spp s)
        = sum_list (map (\<lambda>(k, sba). F (the (map_of cross_walk k)) * sba) (ba_spp s))"
    unfolding spp_sum_def
  proof (rule sum_list_cong_mem)
    fix x assume x: "x \<in> set (ba_spp s)"
    obtain k sba where xe: "x = (k, sba)" by (cases x)
    have sba: "0 \<le> sba" "alist_get (ba_spp s) k = sba"
      using x xe posm alist_get_mem[OF dm] by auto
    have "plot_sum k sba (spp_alloc sgp (ba_grp_spp s) k sba) (plot_species_ba s)
          = spp_alloc sgp (ba_grp_spp s) k sba"
    proof (cases "sba = 0")
      case True
      then show ?thesis by (simp add: plot_sum_zero spp_alloc_def)
    next
      case False
      then have p: "0 < sba" using sba(1) by simp
      have "plot_sum k sba (spp_alloc sgp (ba_grp_spp s) k sba) (plot_species_ba s)
            = spp_alloc sgp (ba_grp_spp s) k sba * plot_total (plot_species_ba s) k / sba"
        by (rule plot_sum_total) (use nnp p in auto)
      also have "\<dots> = spp_alloc sgp (ba_grp_spp s) k sba" using p sba(2) by (simp add: pt)
      finally show ?thesis .
    qed
    then show "(case x of (k, sba) \<Rightarrow> plot_sum k sba (spp_alloc sgp (ba_grp_spp s) k sba) (plot_species_ba s))
        = (case x of (k, sba) \<Rightarrow> F (the (map_of cross_walk k)) * sba)"
      unfolding xe by (simp add: spp_alloc_def F_def)
  qed
  also have "\<dots> = sum_list (map (\<lambda>(g, w). F g * group_total (ba_spp s) g) (ba_grp_spp s))"
    by (rule regroup[OF dg keys])
  also have "\<dots> = sum_list (map (\<lambda>(g, w). alist_get sgp g) (ba_grp_spp s))"
  proof (rule sum_list_cong_mem)
    fix x assume x: "x \<in> set (ba_grp_spp s)"
    obtain g w where xe: "x = (g, w)" by (cases x)
    have "alist_get (ba_grp_spp s) g = w" "0 < w"
      using x xe posg alist_get_mem[OF dg] by auto
    then show "(case x of (g, w) \<Rightarrow> F g * group_total (ba_spp s) g) = (case x of (g, w) \<Rightarrow> alist_get sgp g)"
      unfolding xe by (simp add: F_def gt)
  qed
  also have "\<dots> = IPH"
    unfolding sgp_def by (rule normalized_total[OF dg ne])
  finally show ?thesis unfolding sgp_def .
qed

lemma maps_inv_empty:
  "ba_spp s = [] \<Longrightarrow> ba_grp_spp s = [] \<Longrightarrow> plot_species_ba s = [] \<Longrightarrow> maps_inv s"
  by (simp add: maps_inv_def group_total_def plot_total_def)

lemma ingrowth_composition_sum:
  assumes dg: "distinct (map fst (ba_grp_spp s))"
    and keys: "\<forall>k\<in>set (map fst (ba_spp s)). tab k \<noteq> None \<and> map_of cross_walk k \<noteq> None"
  shows "\<exists>s' new. ingrowth_composition tab s IPH = Inr s' \<and> trees s' = trees s @ new
           \<and> sum_list (map tph new)
             = spp_sum
                 (normalize_percent
                    (sum_list (map (\<lambda>(g, sba). group_percent s g sba) (ba_grp_spp s))) IPH
                    (map (\<lambda>(g, sba). (g, group_percent s g sba)) (ba_grp_spp s)))
                 (ba_grp_spp s) (plot_species_ba s) (ba_spp s)"
proof -
  have gl: "group_loop s (ba_grp_spp s) ([], 0)
      = (map (\<lambda>(g, sba). (g, group_percent s g sba)) (ba_grp_spp s),
         sum_list (map (\<lambda>(g, sba). group_percent s g sba) (ba_grp_spp s)))"
    using group_loop_eq[OF dg, of "[]" s 0] by simp
  let ?sgp = "normalize_percent (sum_list (map (\<lambda>(g, sba). group_percent s g sba) (ba_grp_spp s))) IPH
              (map (\<lambda>(g, sba). (g, group_percent s g sba)) (ba_grp_spp s))"
  obtain grp' ps' new mx' where
    sl: "species_loop tab (MinDBH s) ?sgp (ba_spp s)
           (ba_grp_spp s, plot_species_ba s, trees s, max_tree_id s)
         = Inr (grp', ps', trees s @ new, mx')"
    and sm: "sum_list (map tph new) = spp_sum ?sgp (ba_grp_spp s) (plot_species_ba s) (ba_spp s)"
    using species_loop_ok[OF keys] by blast
  have "ingrowth_composition tab s IPH
      = Inr (s\<lparr> ba_grp_spp := grp', plot_species_ba := ps', trees := trees s @ new,
                  max_tree_id := mx' \<rparr>)"
    using gl sl by (simp add: ingrowth_composition_def)
  then show ?thesis using sm by simp
qed

text \<open>
  \<open>ingrowth_composition\<close> keeps the invariant of the maps: reading \<^verbatim>\<open>m[k]\<close> only adds
  entries of value 0. With \<open>build_inv\<close>, the invariant holds before every call in a
  run that starts from empty maps.
\<close>

lemma alist_touch_distinct: "distinct (map fst m) \<Longrightarrow> distinct (map fst (alist_touch k m))"
  by (auto simp: alist_touch_def map_of_eq_None_iff split: option.splits)

lemma alist_touch_keys: "set (map fst m) \<subseteq> set (map fst (alist_touch k m))"
  by (auto simp: alist_touch_def split: option.splits)

lemma alist_touch_nonneg:
  "list_all (\<lambda>(k, w). 0 \<le> w) m \<Longrightarrow> list_all (\<lambda>(k, w). 0 \<le> w) (alist_touch k' m)"
  by (auto simp: alist_touch_def split: option.splits)

lemma plots_equiv_Cons:
  "plots_equiv ((p, m) # ps) ((p', m') # ps') \<longleftrightarrow>
     p = p' \<and> (\<forall>k. alist_get m' k = alist_get m k) \<and> plots_equiv ps ps'"
  by (simp add: plots_equiv_def)

lemma plot_loop_maps:
  "plot_loop tab md k sba a ps st = Inr (ps', st') \<Longrightarrow>
   plots_equiv ps ps' \<and>
   (list_all (\<lambda>(p, m). list_all (\<lambda>(k, w). 0 \<le> w) m) ps \<longrightarrow>
    list_all (\<lambda>(p, m). list_all (\<lambda>(k, w). 0 \<le> w) m) ps')"
proof (induction ps arbitrary: st ps' st')
  case Nil
  then show ?case by (auto simp: plots_equiv_def)
next
  case (Cons x ps)
  obtain plot psba where x: "x = (plot, psba)" by (cases x)
  obtain ts mx where st: "st = (ts, mx)" by (cases st)
  from Cons.prems(1) obtain st1 ps1 st2 where
    r: "plot_loop tab md k sba a ps st1 = Inr (ps1, st2)" "ps' = (plot, alist_touch k psba) # ps1"
    unfolding x st by (auto simp: Let_def split: if_splits sum.splits)
  from Cons.IH[OF r(1)] show ?case
    unfolding r(2) x by (simp add: alist_touch_nonneg plots_equiv_Cons)
qed

lemma plots_equiv_refl: "plots_equiv a a"
  unfolding plots_equiv_def by (simp add: list_all2_refl)

lemma plots_equiv_trans: "plots_equiv a b \<Longrightarrow> plots_equiv b c \<Longrightarrow> plots_equiv a c"
  unfolding plots_equiv_def
  by (rule list_all2_trans[where ?P1.0 = "\<lambda>x y. fst x = fst y \<and> (\<forall>k. alist_get (snd y) k = alist_get (snd x) k)"
        and ?P2.0 = "\<lambda>x y. fst x = fst y \<and> (\<forall>k. alist_get (snd y) k = alist_get (snd x) k)"])
     auto

lemma plot_total_equiv: "plots_equiv ps ps' \<Longrightarrow> plot_total ps' k = plot_total ps k"
  unfolding plots_equiv_def plot_total_def
  by (induction ps ps' rule: list_all2_induct) (auto simp: case_prod_unfold)

lemma species_loop_maps:
  assumes "species_loop tab md sgp m (grp, ps, ts, mx) = Inr (grp', ps', ts', mx')"
    and "distinct (map fst grp)"
    and "list_all (\<lambda>(p, m). list_all (\<lambda>(k, w). 0 \<le> w) m) ps"
  shows "distinct (map fst grp') \<and> set (map fst grp) \<subseteq> set (map fst grp')
         \<and> (\<forall>g. alist_get grp' g = alist_get grp g) \<and> plots_equiv ps ps'
         \<and> list_all (\<lambda>(p, m). list_all (\<lambda>(k, w). 0 \<le> w) m) ps'"
  using assms
proof (induction m arbitrary: grp ps ts mx)
  case Nil
  then show ?case by (simp add: plots_equiv_refl)
next
  case (Cons x m)
  obtain k sba where x: "x = (k, sba)" by (cases x)
  from Cons.prems(1) obtain g where g: "map_of cross_walk k = Some g"
    unfolding x by (auto split: option.splits)
  let ?grp = "alist_touch g grp"
  let ?a = "alist_get sgp g * sba / alist_get ?grp g"
  from Cons.prems(1) obtain ps1 ts1 mx1 where
    p: "plot_loop tab md k sba ?a ps (ts, mx) = Inr (ps1, ts1, mx1)"
    and r: "species_loop tab md sgp m (?grp, ps1, ts1, mx1) = Inr (grp', ps', ts', mx')"
    unfolding x using g by (auto simp: Let_def split: sum.splits)
  have e1: "plots_equiv ps ps1" and n1: "list_all (\<lambda>(p, m). list_all (\<lambda>(k, w). 0 \<le> w) m) ps1"
    using plot_loop_maps[OF p] Cons.prems(3) by simp_all
  have d1: "distinct (map fst ?grp)" using Cons.prems(2) by (rule alist_touch_distinct)
  from Cons.IH[OF r d1 n1] have
    ih: "distinct (map fst grp')" "set (map fst ?grp) \<subseteq> set (map fst grp')"
      "\<forall>g. alist_get grp' g = alist_get ?grp g" "plots_equiv ps1 ps'"
      "list_all (\<lambda>(p, m). list_all (\<lambda>(k, w). 0 \<le> w) m) ps'"
    by simp_all
  have "set (map fst grp) \<subseteq> set (map fst grp')"
    using ih(2) alist_touch_keys[of grp g] by blast
  moreover have "plots_equiv ps ps'" using e1 ih(4) by (rule plots_equiv_trans)
  ultimately show ?case using ih(1,3,5) by simp
qed

lemma ingrowth_composition_maps_inv:
  assumes "maps_inv s" "ingrowth_composition tab s IPH = Inr s'"
  shows "maps_inv s'"
proof -
  obtain sgp tot where gl: "group_loop s (ba_grp_spp s) ([], 0) = (sgp, tot)"
    by (cases "group_loop s (ba_grp_spp s) ([], 0)")
  from assms(2) obtain grp' ps' ts' mx' where
    sl: "species_loop tab (MinDBH s) (normalize_percent tot IPH sgp) (ba_spp s)
           (ba_grp_spp s, plot_species_ba s, trees s, max_tree_id s) = Inr (grp', ps', ts', mx')"
    and s': "s' = s\<lparr> ba_grp_spp := grp', plot_species_ba := ps', trees := ts',
                         max_tree_id := mx' \<rparr>"
    unfolding ingrowth_composition_def gl by (auto split: sum.splits)
  have d: "distinct (map fst (ba_grp_spp s))"
    and n: "list_all (\<lambda>(p, m). list_all (\<lambda>(k, w). 0 \<le> w) m) (plot_species_ba s)"
    using assms(1) by (simp_all add: maps_inv_def)
  from species_loop_maps[OF sl d n] have
    m: "distinct (map fst grp')" "set (map fst (ba_grp_spp s)) \<subseteq> set (map fst grp')"
      "\<forall>g. alist_get grp' g = alist_get (ba_grp_spp s) g" "plots_equiv (plot_species_ba s) ps'"
      "list_all (\<lambda>(p, m). list_all (\<lambda>(k, w). 0 \<le> w) m) ps'"
    by simp_all
  have keys: "\<forall>k\<in>set (map fst (ba_spp s)). \<exists>g\<in>set (map fst grp'). map_of cross_walk k = Some g"
    using assms(1) m(2) unfolding maps_inv_def by blast
  show ?thesis
    unfolding s' using assms(1) m(1,3,5) keys plot_total_equiv[OF m(4)]
    by (simp add: maps_inv_def)
qed

lemma plot_spp_compute_attributes:
  "plot_id (compute_attributes t) = plot_id t" "spp (compute_attributes t) = spp t"
  by (simp_all add: compute_attributes_def compute_mca_def compute_lcw_def compute_mcw_def)

lemma mixed_stand_built:
  "build_ba_spp_map mixed_stand = mixed_stand\<lparr>
      ba_spp := [(12, 0.3927), (97, 0.62832), (95, 0.15708), (94, 0)],
      ba_grp_spp := [(12, 0.3927), (97, 0.7854)],
      plot_species_ba := [(1, [(12, 0.31416), (95, 0.15708)]),
                          (2, [(97, 0.62832), (94, 0), (12, 0.07854)])] \<rparr>"
  by (simp add: build_ba_spp_map_def mixed_stand_def fir_stand_def fir_tree_def
        build_step_def cross_walk_def)

text \<open>
  The new records of \<open>mixed_stand\<close>, by plot and species: balsam fir on both plots,
  red spruce on plot 2, black spruce on plot 1, and none for the white spruce.
\<close>

lemma mixed_stand_new_records:
  "map (\<lambda>t. (plot_id t, spp t))
     (drop 5 (trees (projr (ingrowth_composition sample_tab (build_ba_spp_map mixed_stand) 10))))
   = [(1, 12), (2, 12), (2, 97), (1, 95)]"
  unfolding mixed_stand_built
  by (simp add: ingrowth_composition_def normalize_percent_def TREE_ctor_def sample_tab_def
      alist_touch_def alist_get_def cross_walk_def Let_def mixed_stand_def fir_stand_def
      plot_spp_compute_attributes)

lemma mixed_stand_maps:
  "ba_grp_spp (build_ba_spp_map mixed_stand) = [(12, 0.3927), (97, 0.7854)]"
  by (simp add: mixed_stand_built)

lemma mixed_stand_maps_again:
  "ba_grp_spp (build_ba_spp_map (build_ba_spp_map mixed_stand)) = [(12, 0.7854), (97, 1.5708)]"
  by (simp add: build_ba_spp_map_def mixed_stand_def fir_stand_def fir_tree_def
        build_step_def cross_walk_def)

text \<open>
  Claim C10, amended. Let the three ingrowth maps of the stand be consistent with
  each other (\<open>maps_inv\<close>: empty maps are, and so are the maps that earlier calls of
  \<open>build_ba_spp_map\<close> and \<open>ingrowth_composition\<close> have left), let no tree record
  have a negative basal area, let the group map that \<open>build_ba_spp_map\<close> builds be
  non-empty with a positive basal area for every species group in it, and let the
  species tables resolve every code of the cross-walk. Then \<open>ingrowth_composition\<close>
  returns, appends new records to the tree list, and their densities add up to
  \<open>IPH\<close>.
\<close>

theorem C10_ingrowth_conserves_total:
  assumes "maps_inv s"
    and "list_all (\<lambda>t. 0 \<le> ba t) (trees s)"
    and "ba_grp_spp (build_ba_spp_map s) \<noteq> []"
    and "list_all (\<lambda>(g, w). 0 < w) (ba_grp_spp (build_ba_spp_map s))"
    and "list_all (\<lambda>(k, g). tab k \<noteq> None) cross_walk"
  shows "\<exists>s' new. ingrowth_composition tab (build_ba_spp_map s) IPH = Inr s'
            \<and> trees s' = trees s @ new \<and> sum_list (map tph new) = IPH"
proof -
  let ?s1 = "build_ba_spp_map s"
  have b: "maps_inv ?s1" "trees ?s1 = trees s"
    using build_inv[OF assms(1,2)] by (simp_all add: build_ba_spp_map_def)
  have dg: "distinct (map fst (ba_grp_spp ?s1))" using b(1) by (simp add: maps_inv_def)
  have keys: "\<forall>k\<in>set (map fst (ba_spp ?s1)). tab k \<noteq> None \<and> map_of cross_walk k \<noteq> None"
  proof
    fix k assume "k \<in> set (map fst (ba_spp ?s1))"
    then obtain g where g: "map_of cross_walk k = Some g" using b(1) by (auto simp: maps_inv_def)
    then have "(k, g) \<in> set cross_walk" by (rule map_of_SomeD)
    then have "tab k \<noteq> None" using assms(5) by (auto simp: list_all_iff)
    then show "tab k \<noteq> None \<and> map_of cross_walk k \<noteq> None" using g by simp
  qed
  from ingrowth_composition_sum[OF dg keys, of IPH]
    spp_sum_conserved[OF b(1) assms(3,4), of IPH] b(2)
  show ?thesis by auto
qed

text \<open>
  The theorem at \<open>mixed_stand\<close>, with two species groups, four species and two
  plots, once with its empty maps, where the four new records share the 10 trees
  per hectare, and once with the maps that a first call of \<open>build_ba_spp_map\<close>
  has filled, as in the second year of a run.
\<close>

theorem C10_ingrowth_conserves_total_witness:
  "(maps_inv mixed_stand
    \<and> list_all (\<lambda>t. 0 \<le> ba t) (trees mixed_stand)
    \<and> ba_grp_spp (build_ba_spp_map mixed_stand) \<noteq> []
    \<and> list_all (\<lambda>(g, w). 0 < w) (ba_grp_spp (build_ba_spp_map mixed_stand))
    \<and> list_all (\<lambda>(k, g). sample_tab k \<noteq> None) cross_walk
    \<and> (\<exists>s' new. ingrowth_composition sample_tab (build_ba_spp_map mixed_stand) 10 = Inr s'
            \<and> trees s' = trees mixed_stand @ new \<and> sum_list (map tph new) = 10
            \<and> map (\<lambda>t. (plot_id t, spp t)) new = [(1, 12), (2, 12), (2, 97), (1, 95)]))
   \<and> (maps_inv (build_ba_spp_map mixed_stand)
    \<and> list_all (\<lambda>t. 0 \<le> ba t) (trees (build_ba_spp_map mixed_stand))
    \<and> ba_grp_spp (build_ba_spp_map (build_ba_spp_map mixed_stand)) \<noteq> []
    \<and> list_all (\<lambda>(g, w). 0 < w) (ba_grp_spp (build_ba_spp_map (build_ba_spp_map mixed_stand)))
    \<and> (\<exists>s' new. ingrowth_composition sample_tab
                       (build_ba_spp_map (build_ba_spp_map mixed_stand)) 10 = Inr s'
            \<and> trees s' = trees (build_ba_spp_map mixed_stand) @ new
            \<and> sum_list (map tph new) = 10))"
proof -
  let ?s1 = "build_ba_spp_map mixed_stand"
  have m0: "maps_inv mixed_stand"
    by (rule maps_inv_empty) (simp_all add: mixed_stand_def fir_stand_def)
  have t0: "list_all (\<lambda>t. 0 \<le> ba t) (trees mixed_stand)"
    by (simp add: mixed_stand_def fir_tree_def)
  have g0: "ba_grp_spp ?s1 \<noteq> []" "list_all (\<lambda>(g, w). 0 < w) (ba_grp_spp ?s1)"
    by (simp_all add: mixed_stand_maps)
  have tb: "list_all (\<lambda>(k, g). sample_tab k \<noteq> None) cross_walk"
    by (simp add: sample_tab_def cross_walk_def)
  have m1: "maps_inv ?s1" and tr: "trees ?s1 = trees mixed_stand"
    using build_inv[OF m0 t0] by (simp_all add: build_ba_spp_map_def)
  have t1: "list_all (\<lambda>t. 0 \<le> ba t) (trees ?s1)" using t0 tr by simp
  have g1: "ba_grp_spp (build_ba_spp_map ?s1) \<noteq> []"
    "list_all (\<lambda>(g, w). 0 < w) (ba_grp_spp (build_ba_spp_map ?s1))"
    by (simp_all add: mixed_stand_maps_again)
  have l: "length (trees mixed_stand) = 5" by (simp add: mixed_stand_def)
  from C10_ingrowth_conserves_total[OF m0 t0 g0 tb, of 10] obtain s' new where
    a: "ingrowth_composition sample_tab ?s1 10 = Inr s'" "trees s' = trees mixed_stand @ new"
      "sum_list (map tph new) = 10"
    by blast
  have nr: "map (\<lambda>t. (plot_id t, spp t)) new = [(1, 12), (2, 12), (2, 97), (1, 95)]"
    using mixed_stand_new_records a(1,2) l by simp
  have first: "\<exists>s' new. ingrowth_composition sample_tab ?s1 10 = Inr s'
            \<and> trees s' = trees mixed_stand @ new \<and> sum_list (map tph new) = 10
            \<and> map (\<lambda>t. (plot_id t, spp t)) new = [(1, 12), (2, 12), (2, 97), (1, 95)]"
    by (rule exI[of _ s'], rule exI[of _ new]) (simp add: a nr)
  from C10_ingrowth_conserves_total[OF m1 t1 g1 tb, of 10]
  show ?thesis using m0 t0 g0 tb m1 t1 g1 first by simp
qed

lemma zero_ba_stand_maps:
  "ba_spp (build_ba_spp_map zero_ba_stand) = [(12, 0.31416), (316, 0)]"
  "ba_grp_spp (build_ba_spp_map zero_ba_stand) = [(12, 0.31416), (316, 0)]"
  "plot_species_ba (build_ba_spp_map zero_ba_stand) = [(1, [(12, 0.31416), (316, 0)])]"
  "trees (build_ba_spp_map zero_ba_stand) = trees zero_ba_stand"
  by (simp_all add: build_ba_spp_map_def zero_ba_stand_def fir_stand_def fir_tree_def
        build_step_def cross_walk_def)

lemma spp_sum_two_species:
  assumes "0 < b"
  shows "spp_sum sgp [(12, b), (316, 0)] [(p, [(12, b), (316, 0)])] [(12, b), (316, 0)]
         = alist_get sgp 12"
  using assms
  by (simp add: spp_sum_def spp_alloc_def plot_sum_def alist_get_Cons cross_walk_def)

text \<open>
  The claim C10 as stated asks only for a positive stand basal area and species in
  the cross-walk. \<open>zero_ba_stand\<close> has both, and the new records get less than
  \<open>IPH = 10\<close>: the red maple group has basal area 0, it takes a positive share of
  the normalised allocation, and no record is created for it (its plot share
  \<open>0 / 0\<close> is not positive, in C++ as a NaN and here as 0).
\<close>

theorem C10_zero_group_counterexample:
  "0 < stand_ba zero_ba_stand
   \<and> list_all (\<lambda>t. map_of cross_walk (spp t) \<noteq> None) (trees zero_ba_stand)
   \<and> \<not> isl (ingrowth_composition sample_tab (build_ba_spp_map zero_ba_stand) 10)
   \<and> sum_list (map tph (drop (length (trees zero_ba_stand))
        (trees (projr (ingrowth_composition sample_tab (build_ba_spp_map zero_ba_stand) 10)))))
       < 10"
proof -
  let ?s1 = "build_ba_spp_map zero_ba_stand"
  define p1 where "p1 = group_percent ?s1 12 0.31416"
  define p2 where "p2 = group_percent ?s1 316 0"
  have pos: "0 < p1" "0 < p2" by (simp_all add: p1_def p2_def group_percent_pos)
  have dg: "distinct (map fst (ba_grp_spp ?s1))" by (simp add: zero_ba_stand_maps)
  have keys: "\<forall>k\<in>set (map fst (ba_spp ?s1)). sample_tab k \<noteq> None \<and> map_of cross_walk k \<noteq> None"
    by (simp add: zero_ba_stand_maps sample_tab_def cross_walk_def)
  from ingrowth_composition_sum[OF dg keys, of 10] obtain s' new where
    r: "ingrowth_composition sample_tab ?s1 10 = Inr s'" "trees s' = trees zero_ba_stand @ new"
    and sm: "sum_list (map tph new)
             = spp_sum
                 (normalize_percent
                    (sum_list (map (\<lambda>(g, sba). group_percent ?s1 g sba) (ba_grp_spp ?s1))) 10
                    (map (\<lambda>(g, sba). (g, group_percent ?s1 g sba)) (ba_grp_spp ?s1)))
                 (ba_grp_spp ?s1) (plot_species_ba ?s1) (ba_spp ?s1)"
    by (auto simp: zero_ba_stand_maps(4))
  have "sum_list (map tph new)
          = alist_get (normalize_percent (p1 + p2) 10 [(12, p1), (316, p2)]) 12"
    unfolding sm zero_ba_stand_maps
    by (subst spp_sum_two_species) (simp_all add: p1_def p2_def)
  also have "\<dots> = p1 / (p1 + p2) * 10"
    by (simp add: normalize_percent_def alist_get_Cons)
  also have "\<dots> < 10" using pos by (simp add: field_simps)
  finally have lt: "sum_list (map tph new) < 10" .
  have a: "0 < stand_ba zero_ba_stand" by (simp add: zero_ba_stand_def fir_stand_def)
  have b: "list_all (\<lambda>t. map_of cross_walk (spp t) \<noteq> None) (trees zero_ba_stand)"
    by (simp add: zero_ba_stand_def fir_tree_def cross_walk_def)
  show ?thesis using a b lt r by simp
qed

subsection \<open>Expanding and collapsing the tree list\<close>

text \<open>\<^verbatim>\<open>compute_attributes\<close> writes derived fields only.\<close>

lemma compute_attributes_fields [simp]:
  "plot_id (compute_attributes t) = plot_id t"
  "tree_id (compute_attributes t) = tree_id t"
  "expand_tree_id (compute_attributes t) = expand_tree_id t"
  "dbh (compute_attributes t) = dbh t"
  "ht (compute_attributes t) = ht t"
  "cr (compute_attributes t) = cr t"
  "hcb (compute_attributes t) = hcb t"
  by (simp_all add: compute_attributes_def compute_mca_def compute_lcw_def compute_mcw_def)

lemma tree_key_compute_attributes [simp]: "tree_key (compute_attributes t) = tree_key t"
  by (simp add: tree_key_def)

text \<open>The expansion: the inner loop, one record, the whole list.\<close>

lemma perturb_fields:
  assumes "perturb jit gen t = (t', gen')" "\<forall>n. \<bar>jit n\<bar> \<le> 0.005"
  shows "tree_key t' = tree_key t" "cr t' = cr t" "expand_tree_id t' = expand_tree_id t"
    "\<bar>dbh t' - dbh t\<bar> \<le> 0.005" "\<bar>ht t' - ht t\<bar> \<le> 0.005"
  using assms by (auto simp: perturb_def Let_def tree_key_def split: if_splits)

lemma fresh_copy_mono: "fresh_copy t lo hi c \<Longrightarrow> lo' \<le> lo \<Longrightarrow> hi \<le> hi' \<Longrightarrow> fresh_copy t lo' hi' c"
  unfolding fresh_copy_def by (meson le_trans order_le_less_trans)

lemma perturb_fresh_copy:
  assumes "perturb jit gen (t\<lparr> expand_tree_id := of_nat m \<rparr>) = (t', gen')"
    and "\<forall>n. \<bar>jit n\<bar> \<le> 0.005" and "lo < m" "m \<le> hi"
  shows "fresh_copy t lo hi (compute_attributes (t'\<lparr> tph := x \<rparr>))"
proof -
  from perturb_fields[OF assms(1,2)]
  have "tree_key t' = tree_key t" "cr t' = cr t" "expand_tree_id t' = of_nat m"
    "\<bar>dbh t' - dbh t\<bar> \<le> 0.005" "\<bar>ht t' - ht t\<bar> \<le> 0.005"
    by (simp_all add: tree_key_def)
  then show ?thesis using assms(3,4) by (auto simp: fresh_copy_def tree_key_def)
qed

lemma copies_loop_spec:
  assumes "\<forall>n. \<bar>jit n\<bar> \<le> 0.005" "i < length ts"
  shows "\<exists>cs gen'. copies_loop jit th n i j (ts, gen, cum)
              = (j + length cs, ts @ cs, gen', cum + th * real (length cs))
           \<and> list_all (\<lambda>c. fresh_copy (ts ! i) j (j + length cs) c \<and> tph c = th) cs
           \<and> \<not> real (j + length cs) < n
           \<and> (cs = [] \<or> real (j + length cs) < n + 1)"
  using assms
proof (induction jit th n i j "(ts, gen, cum)" arbitrary: ts gen cum rule: copies_loop.induct)
  case (1 jit th n i j)
  show ?case
  proof (cases "real j < n")
    case False
    then have "copies_loop jit th n i j (ts, gen, cum) = (j, ts, gen, cum)"
      by (subst copies_loop.simps) simp
    then show ?thesis using False by (intro exI[of _ "[]"] exI[of _ gen]) simp
  next
    case True
    obtain t' gen1 where p: "perturb jit gen ((ts ! i)\<lparr> expand_tree_id := of_nat (j + 1) \<rparr>) = (t', gen1)"
      by (cases "perturb jit gen ((ts ! i)\<lparr> expand_tree_id := of_nat (j + 1) \<rparr>)")
    let ?c = "compute_attributes (t'\<lparr> tph := th \<rparr>)"
    have i': "i < length (ts @ [?c])" using "1.prems"(2) by simp
    from "1.hyps"[OF refl refl True p[symmetric] "1.prems"(1) i'] obtain cs gen' where
      r: "copies_loop jit th n i (j + 1) (ts @ [?c], gen1, cum + th)
            = (j + 1 + length cs, (ts @ [?c]) @ cs, gen', cum + th + th * real (length cs))"
      and a: "list_all (\<lambda>c. fresh_copy ((ts @ [?c]) ! i) (j + 1) (j + 1 + length cs) c \<and> tph c = th) cs"
      and e: "\<not> real (j + 1 + length cs) < n" "cs = [] \<or> real (j + 1 + length cs) < n + 1"
      by blast
    have nth: "(ts @ [?c]) ! i = ts ! i" using "1.prems"(2) by (simp add: nth_append)
    have c: "fresh_copy (ts ! i) j (j + length (?c # cs)) ?c"
      by (rule perturb_fresh_copy[OF p "1.prems"(1)]) simp_all
    have "copies_loop jit th n i j (ts, gen, cum)
            = copies_loop jit th n i (j + 1) (ts @ [?c], gen1, cum + th)"
      by (subst copies_loop.simps) (simp only: prod.case True if_True p)
    then have "copies_loop jit th n i j (ts, gen, cum)
            = (j + length (?c # cs), ts @ (?c # cs), gen', cum + th * real (length (?c # cs)))"
      unfolding r by (simp add: algebra_simps)
    moreover have "list_all (\<lambda>c. fresh_copy (ts ! i) j (j + length (?c # cs)) c \<and> tph c = th) (?c # cs)"
      using a c unfolding nth by (auto simp: list_all_iff intro: fresh_copy_mono)
    moreover have "\<not> real (j + length (?c # cs)) < n" using e(1) by simp
    moreover have "real (j + length (?c # cs)) < n + 1" using e(2) True by auto
    ultimately show ?thesis by blast
  qed
qed

lemma word64_of_nat_pos: "0 < m \<Longrightarrow> m < 2 ^ 64 \<Longrightarrow> 0 < (of_nat m :: 64 word)"
  using of_nat_neq_0[of m, where 'a = 64] by (simp add: word_greater_zero_iff)

lemma word64_of_nat_neq: "a < b \<Longrightarrow> b < 2 ^ 64 \<Longrightarrow> (of_nat a :: 64 word) \<noteq> of_nat b"
  by (simp add: word_of_nat_eq_iff take_bit_nat_eq_self)

lemma fresh_copy_copy_of:
  assumes "fresh_copy t 0 hi c" "0 \<le> tph c" "hi + 1 < 2 ^ 64"
  shows "copy_of t (of_nat (hi + 1)) c"
proof -
  from assms(1) obtain m where m: "0 < m" "m \<le> hi" "expand_tree_id c = of_nat m"
    by (auto simp: fresh_copy_def)
  have "0 < (of_nat m :: 64 word)" using m assms(3) by (intro word64_of_nat_pos) auto
  moreover have "(of_nat m :: 64 word) \<noteq> of_nat (hi + 1)"
    using m assms(3) by (intro word64_of_nat_neq) auto
  ultimately show ?thesis using assms(1,2) m(3) by (simp add: copy_of_def fresh_copy_def)
qed

lemma sum_list_const_tph:
  "list_all (\<lambda>c. tph c = x) cs \<Longrightarrow> sum_list (map tph cs) = x * real (length cs)"
  by (induction cs) (auto simp: algebra_simps)

lemma expand_one_spec:
  assumes jit: "\<forall>n. \<bar>jit n\<bar> \<le> 0.005" and i: "i < length ts"
    and big: "50 < tph (ts ! i)" and bound: "tph (ts ! i) < 2 ^ 64"
  shows "\<exists>cs gen' o'. expand_one jit 50 (ts, gen) i = (ts[i := o'] @ cs, gen')
           \<and> expanded_orig (ts ! i) o'
           \<and> list_all (copy_of (ts ! i) (expand_tree_id o')) cs
           \<and> sum_list (map tph cs) = tph (ts ! i) - 50"
proof -
  let ?t = "ts ! i"
  define N where "N = \<lfloor>tph ?t / 50\<rfloor>"
  have N1: "1 \<le> N" unfolding N_def using big by (simp add: le_floor_iff)
  have Nle: "real_of_int N * 50 \<le> tph ?t"
    unfolding N_def using of_int_floor_le[of "tph ?t / 50"] by (simp add: field_simps)
  have Nlt: "N < 2 ^ 64 - 2"
  proof -
    have "tph ?t / 50 < 2 ^ 64 - 2" using bound by simp
    then show ?thesis unfolding N_def by (simp add: floor_less_iff)
  qed
  have tr: "std_trunc (tph ?t / 50) - 1 = real_of_int N - 1"
    using big by (simp add: std_trunc_def N_def)
  from copies_loop_spec[OF jit i, of 50 "real_of_int N - 1" 0 gen 50] obtain cs1 gen1 where
    cl: "copies_loop jit 50 (real_of_int N - 1) i 0 (ts, gen, 50)
           = (length cs1, ts @ cs1, gen1, 50 + 50 * real (length cs1))"
    and all1: "list_all (\<lambda>c. fresh_copy ?t 0 (length cs1) c \<and> tph c = 50) cs1"
    and ex: "\<not> real (length cs1) < real_of_int N - 1"
      "cs1 = [] \<or> real (length cs1) < real_of_int N - 1 + 1"
    by auto
  have L: "int (length cs1) = N - 1"
  proof (cases "cs1 = []")
    case True
    then show ?thesis using ex(1) N1 by simp
  next
    case False
    then have "real (length cs1) < real_of_int N" using ex(2) by simp
    then have "int (length cs1) < N" by linarith
    moreover have "N - 1 \<le> int (length cs1)" using ex(1) by linarith
    ultimately show ?thesis by simp
  qed
  then have Lr: "real (length cs1) = real_of_int N - 1" by linarith
  have cum: "50 + 50 * real (length cs1) = real_of_int N * 50" using Lr by simp
  have nth: "(ts @ cs1) ! i = ?t" using i by (simp add: nth_append)
  have sum1: "sum_list (map tph cs1) = 50 * real (length cs1)"
    by (rule sum_list_const_tph) (use all1 in \<open>auto simp: list_all_iff\<close>)
  have Lb: "length cs1 + 2 < 2 ^ 64"
  proof -
    have "int (length cs1 + 2) < int (2 ^ 64)" using L Nlt by simp
    then show ?thesis by (simp only: of_nat_less_iff)
  qed
  show ?thesis
  proof (cases "real_of_int N * 50 < tph ?t")
    case True
    obtain t' gen2 where p: "perturb jit gen1 (?t\<lparr> expand_tree_id := 1 + of_nat (length cs1) \<rparr>) = (t', gen2)"
      by (cases "perturb jit gen1 (?t\<lparr> expand_tree_id := 1 + of_nat (length cs1) \<rparr>)")
    have p': "perturb jit gen1 (?t\<lparr> expand_tree_id := of_nat (length cs1 + 1) \<rparr>) = (t', gen2)"
      using p by simp
    let ?r = "compute_attributes (t'\<lparr> tph := tph ?t - real_of_int N * 50 \<rparr>)"
    let ?o = "compute_attributes (?t\<lparr> tph := 50, expand_tree_id := of_nat (length cs1 + 1 + 1) \<rparr>)"
    have fr: "fresh_copy ?t 0 (length cs1 + 1) ?r"
      by (rule perturb_fresh_copy[OF p' jit]) simp_all
    have e: "expand_one jit 50 (ts, gen) i = (ts[i := ?o] @ (cs1 @ [?r]), gen2)"
      using big True i
      by (simp add: expand_one_def tr cl cum nth p nth_append list_update_append1)
    have o: "expanded_orig ?t ?o"
      using word64_of_nat_pos[of "length cs1 + 2"] Lb
      by (simp add: expanded_orig_def tree_key_def)
    have "list_all (\<lambda>c. fresh_copy ?t 0 (length cs1 + 1) c \<and> 0 \<le> tph c) (cs1 @ [?r])"
      using all1 fr True by (auto simp: list_all_iff intro: fresh_copy_mono)
    then have c: "list_all (copy_of ?t (expand_tree_id ?o)) (cs1 @ [?r])"
      using Lb fresh_copy_copy_of[of ?t "length cs1 + 1"] by (auto simp: list_all_iff)
    have s: "sum_list (map tph (cs1 @ [?r])) = tph ?t - 50"
      using sum1 Lr by (simp add: algebra_simps)
    show ?thesis using e o c s by blast
  next
    case False
    then have eq: "real_of_int N * 50 = tph ?t" using Nle by simp
    let ?o = "compute_attributes (?t\<lparr> tph := 50, expand_tree_id := of_nat (length cs1 + 1) \<rparr>)"
    have e: "expand_one jit 50 (ts, gen) i = (ts[i := ?o] @ cs1, gen1)"
      using big False i
      by (simp add: expand_one_def tr cl cum nth nth_append list_update_append1)
    have o: "expanded_orig ?t ?o"
      using word64_of_nat_pos[of "length cs1 + 1"] Lb
      by (simp add: expanded_orig_def tree_key_def)
    have "list_all (\<lambda>c. fresh_copy ?t 0 (length cs1) c \<and> 0 \<le> tph c) cs1"
      using all1 by (auto simp: list_all_iff)
    then have c: "list_all (copy_of ?t (expand_tree_id ?o)) cs1"
      using Lb fresh_copy_copy_of[of ?t "length cs1"] by (auto simp: list_all_iff)
    have s: "sum_list (map tph cs1) = tph ?t - 50"
      using sum1 Lr eq by (simp add: algebra_simps)
    show ?thesis using e o c s by blast
  qed
qed

lemma filter_none: "\<forall>c\<in>set cs. \<not> P c \<Longrightarrow> filter P cs = []"
  by (induction cs) auto

lemma filter_all: "\<forall>c\<in>set cs. P c \<Longrightarrow> filter P cs = cs"
  by (induction cs) auto

lemma expanded_ok_append:
  "expanded_ok t o' C \<Longrightarrow> \<forall>c\<in>set cs. tree_key c \<noteq> tree_key t \<Longrightarrow> expanded_ok t o' (C @ cs)"
  unfolding expanded_ok_def by (auto simp: filter_none)

lemma expand_fold:
  assumes jit: "\<forall>n. \<bar>jit n\<bar> \<le> 0.005"
    and dist: "distinct (map tree_key ts0)"
    and bound: "\<forall>t\<in>set ts0. tph t < 2 ^ 64"
    and i: "i \<le> length ts0"
  shows "\<exists>Os C gen. foldl (expand_one jit 50) (ts0, 0) [0..<i] = (Os @ drop i ts0 @ C, gen)
           \<and> length Os = i \<and> list_all2 (\<lambda>t o'. expanded_ok t o' C) (take i ts0) Os
           \<and> (\<forall>c\<in>set C. \<exists>q<i. tree_key c = tree_key (ts0 ! q))"
  using i
proof (induction i)
  case 0
  show ?case by (intro exI[of _ "[]"] exI[of _ 0]) simp
next
  case (Suc i)
  then have ilt: "i < length ts0" by simp
  from Suc obtain Os C gen where
    st: "foldl (expand_one jit 50) (ts0, 0) [0..<i] = (Os @ drop i ts0 @ C, gen)"
    and len: "length Os = i"
    and ok: "list_all2 (\<lambda>t o'. expanded_ok t o' C) (take i ts0) Os"
    and own: "\<forall>c\<in>set C. \<exists>q<i. tree_key c = tree_key (ts0 ! q)"
    by auto
  let ?t = "ts0 ! i"
  let ?ts = "Os @ drop i ts0 @ C"
  have dr: "drop i ts0 = ?t # drop (Suc i) ts0" using ilt by (simp add: Cons_nth_drop_Suc)
  have nth: "?ts ! i = ?t" using len ilt by (simp add: nth_append)
  have il: "i < length ?ts" using len ilt by simp
  have keys: "\<And>q. q < i \<Longrightarrow> tree_key (ts0 ! q) \<noteq> tree_key ?t"
  proof -
    fix q assume q: "q < i"
    have "q < length (map tree_key ts0)" "i < length (map tree_key ts0)" "q \<noteq> i"
      using q ilt by simp_all
    then have "map tree_key ts0 ! q \<noteq> map tree_key ts0 ! i"
      using dist nth_eq_iff_index_eq by blast
    then show "tree_key (ts0 ! q) \<noteq> tree_key ?t" using q ilt by simp
  qed
  have Ckeys: "\<forall>c\<in>set C. tree_key c \<noteq> tree_key ?t" using own keys by metis
  have tk: "take (Suc i) ts0 = take i ts0 @ [?t]" using ilt by (simp add: take_Suc_conv_app_nth)
  have fold: "foldl (expand_one jit 50) (ts0, 0) [0..<Suc i] = expand_one jit 50 (?ts, gen) i"
    using st by simp
  show ?case
  proof (cases "50 < tph ?t")
    case False
    have e: "expand_one jit 50 (?ts, gen) i = ((Os @ [?t]) @ drop (Suc i) ts0 @ C, gen)"
      using False nth by (simp add: expand_one_def dr)
    have "expanded_ok ?t ?t C" using False Ckeys by (simp add: expanded_ok_def)
    then have "list_all2 (\<lambda>t o'. expanded_ok t o' C) (take (Suc i) ts0) (Os @ [?t])"
      unfolding tk using ok by (simp add: list_all2_appendI)
    moreover have "\<forall>c\<in>set C. \<exists>q<Suc i. tree_key c = tree_key (ts0 ! q)"
      using own less_Suc_eq by auto
    ultimately show ?thesis using len unfolding fold e by (intro exI[of _ "Os @ [?t]"] exI[of _ C] exI[of _ gen]) simp
  next
    case True
    have b: "tph (?ts ! i) < 2 ^ 64" using bound ilt nth by simp
    from expand_one_spec[OF jit il _ b, of gen] True nth obtain cs gen' o' where
      e: "expand_one jit 50 (?ts, gen) i = (?ts[i := o'] @ cs, gen')"
      and o: "expanded_orig ?t o'"
      and c: "list_all (copy_of ?t (expand_tree_id o')) cs"
      and s: "sum_list (map tph cs) = tph ?t - 50"
      by auto
    have upd: "?ts[i := o'] @ cs = (Os @ [o']) @ drop (Suc i) ts0 @ (C @ cs)"
      using len by (simp add: list_update_append dr)
    have cskey: "\<forall>c\<in>set cs. tree_key c = tree_key ?t"
      using c by (auto simp: list_all_iff copy_of_def)
    have f1: "filter (\<lambda>c. tree_key c = tree_key ?t) (C @ cs) = cs"
      using Ckeys cskey by (simp add: filter_none filter_all)
    have new: "expanded_ok ?t o' (C @ cs)"
      using True o c s Ckeys unfolding expanded_ok_def f1 by (auto simp: list_all_iff)
    have old: "list_all2 (\<lambda>t o'. expanded_ok t o' (C @ cs)) (take i ts0) Os"
      unfolding list_all2_conv_all_nth
    proof (intro conjI allI impI)
      show "length (take i ts0) = length Os" using len ilt by simp
    next
      fix q assume q: "q < length (take i ts0)"
      then have qi: "q < i" by simp
      have "expanded_ok (take i ts0 ! q) (Os ! q) C"
        by (rule list_all2_nthD[OF ok q])
      moreover have "\<forall>c\<in>set cs. tree_key c \<noteq> tree_key (take i ts0 ! q)"
        using cskey keys[OF qi] qi by simp
      ultimately show "expanded_ok (take i ts0 ! q) (Os ! q) (C @ cs)"
        by (rule expanded_ok_append)
    qed
    have all: "list_all2 (\<lambda>t o'. expanded_ok t o' (C @ cs)) (take (Suc i) ts0) (Os @ [o'])"
      unfolding tk using old new by (simp add: list_all2_appendI)
    have own': "\<forall>c\<in>set (C @ cs). \<exists>q<Suc i. tree_key c = tree_key (ts0 ! q)"
      using own cskey less_Suc_eq by auto
    show ?thesis
      unfolding fold e upd using len all own'
      by (intro exI[of _ "Os @ [o']"] exI[of _ "C @ cs"] exI[of _ gen']) simp
  qed
qed

text \<open>The collapse: what the inner loop accumulates and marks.\<close>

lemma absorb_loop_spec:
  "absorb_loop a ts = (a', ts') \<Longrightarrow>
     ts' = map (\<lambda>t. if matches a t then mark t else t) ts \<and>
     tph a' = tph a + sum_list (map tph (filter (matches a) ts)) \<and>
     dbh a' = dbh a + sum_list (map (\<lambda>t. dbh t * tph t) (filter (matches a) ts)) \<and>
     ht a' = ht a + sum_list (map (\<lambda>t. ht t * tph t) (filter (matches a) ts)) \<and>
     cr a' = cr a + sum_list (map (\<lambda>t. cr t * tph t) (filter (matches a) ts)) \<and>
     plot_id a' = plot_id a \<and> tree_id a' = tree_id a \<and> expand_tree_id a' = expand_tree_id a"
proof (induction ts arbitrary: a a' ts')
  case Nil
  then show ?case by simp
next
  case (Cons t2 rest)
  show ?case
  proof (cases "matches a t2")
    case True
    let ?a = "a\<lparr> tph := tph a + tph t2, dbh := dbh a + dbh t2 * tph t2,
                    ht := ht a + ht t2 * tph t2, hcb := hcb a + hcb t2 * tph t2,
                    cr := cr a + cr t2 * tph t2 \<rparr>"
    obtain a1 r1 where r: "absorb_loop ?a rest = (a1, r1)" by (cases "absorb_loop ?a rest")
    have m: "matches ?a = matches a" by (simp add: matches_def fun_eq_iff)
    from Cons.prems True r have eq: "a' = a1" "ts' = mark t2 # r1"
      by (simp_all add: matches_def mark_def)
    from Cons.IH[OF r] show ?thesis unfolding eq m using True by simp
  next
    case False
    obtain a1 r1 where r: "absorb_loop a rest = (a1, r1)" by (cases "absorb_loop a rest")
    from Cons.prems False r have eq: "a' = a1" "ts' = t2 # r1"
      by (auto simp: matches_def)
    from Cons.IH[OF r] show ?thesis unfolding eq using False by simp
  qed
qed

lemma minus_one_word_pos: "0 < (- 1 :: 64 word)"
  by (simp add: word_greater_zero_iff)

lemma collapse_consumed:
  "list_all consumed C \<Longrightarrow> list_all (\<lambda>t. tph t = 0) (collapse_loop C)"
proof (induction C)
  case Nil
  then show ?case by simp
next
  case (Cons c rest)
  let ?a0 = "c\<lparr> dbh := dbh c * tph c, ht := ht c * tph c, hcb := hcb c * tph c, cr := cr c * tph c \<rparr>"
  obtain a1 r1 where r: "absorb_loop ?a0 rest = (a1, r1)" by (cases "absorb_loop ?a0 rest")
  have c: "tph c = 0" "expand_tree_id c = - 1" using Cons.prems by (simp_all add: consumed_def)
  have nom: "\<forall>t\<in>set rest. \<not> matches ?a0 t"
    using Cons.prems c by (auto simp: matches_def consumed_def list_all_iff)
  from absorb_loop_spec[OF r] nom have "r1 = rest" "tph a1 = 0"
    using c by (simp_all add: filter_none map_idI)
  then show ?case
    using Cons r c minus_one_word_pos by simp
qed

text \<open>A weighted mean of values within \<open>e\<close> of \<open>x\<close> is within \<open>e\<close> of \<open>x\<close>.\<close>

lemma weighted_sum_const:
  fixes f w :: "TREE \<Rightarrow> real"
  shows "\<forall>c\<in>set F. f c = x \<Longrightarrow> sum_list (map (\<lambda>c. f c * w c) F) = x * sum_list (map w F)"
  by (induction F) (auto simp: algebra_simps)

lemma weighted_sum_bound:
  fixes f w :: "TREE \<Rightarrow> real"
  shows "\<forall>c\<in>set F. \<bar>f c - x\<bar> \<le> e \<and> 0 \<le> w c \<Longrightarrow>
         \<bar>sum_list (map (\<lambda>c. f c * w c) F) - x * sum_list (map w F)\<bar> \<le> e * sum_list (map w F)"
proof (induction F)
  case Nil
  then show ?case by simp
next
  case (Cons c F)
  have ih: "\<bar>sum_list (map (\<lambda>c. f c * w c) F) - x * sum_list (map w F)\<bar> \<le> e * sum_list (map w F)"
    using Cons by simp
  have "\<bar>f c - x\<bar> * w c \<le> e * w c" using Cons.prems by (simp add: mult_right_mono)
  then have c: "\<bar>f c * w c - x * w c\<bar> \<le> e * w c"
    using Cons.prems by (simp add: abs_mult flip: left_diff_distrib)
  have "sum_list (map (\<lambda>c. f c * w c) (c # F)) - x * sum_list (map w (c # F))
        = (f c * w c - x * w c) + (sum_list (map (\<lambda>c. f c * w c) F) - x * sum_list (map w F))"
    by (simp add: algebra_simps)
  then show ?case using c ih by (simp add: algebra_simps)
qed

lemma average_bound:
  fixes x S W e :: real
  assumes "\<bar>S - x * W\<bar> \<le> e * W" "0 \<le> W" "0 \<le> e"
  shows "\<bar>(x * 50 + S) / (50 + W) - x\<bar> \<le> e"
proof -
  have T: "0 < 50 + W" using assms(2) by simp
  have "(x * 50 + S) / (50 + W) - x = (S - x * W) / (50 + W)"
    using T by (simp add: field_simps)
  then have "\<bar>(x * 50 + S) / (50 + W) - x\<bar> = \<bar>S - x * W\<bar> / (50 + W)"
    using T by simp
  also have "\<dots> \<le> e * W / (50 + W)" using assms(1) T by (simp add: divide_right_mono)
  also have "\<dots> \<le> e * (50 + W) / (50 + W)"
    using assms(2,3) T by (intro divide_right_mono mult_left_mono) simp_all
  also have "\<dots> = e" using T by simp
  finally show ?thesis .
qed

text \<open>The collapse of an expanded list, record by record.\<close>

lemma tree_key_mark [simp]: "tree_key (mark c) = tree_key c"
  by (simp add: tree_key_def mark_def)

lemma consumed_mark [simp]: "consumed (mark c)"
  by (simp add: consumed_def mark_def)

lemma expanded_ok_key: "expanded_ok t o' C \<Longrightarrow> tree_key o' = tree_key t"
  by (auto simp: expanded_ok_def expanded_orig_def)

lemma filter_map_other:
  "k' \<noteq> k \<Longrightarrow>
   filter (\<lambda>c. tree_key c = k') (map (\<lambda>c. if tree_key c = k then mark c else c) C)
   = filter (\<lambda>c. tree_key c = k') C"
  by (induction C) auto

lemma expanded_ok_mark:
  assumes "expanded_ok t o' C" "tree_key t \<noteq> k"
  shows "expanded_ok t o' (map (\<lambda>c. if tree_key c = k then mark c else c) C)"
proof -
  have f: "filter (\<lambda>c. tree_key c = tree_key t) (map (\<lambda>c. if tree_key c = k then mark c else c) C)
           = filter (\<lambda>c. tree_key c = tree_key t) C"
    using assms(2) by (rule filter_map_other)
  show ?thesis
    using assms unfolding expanded_ok_def f by auto
qed

lemma collapse_step_big:
  fixes t o' :: TREE
  assumes orig: "expanded_orig t o'" and big: "50 < tph t"
    and others: "\<forall>x\<in>set Os. tree_key x \<noteq> tree_key t"
    and copies: "\<forall>c\<in>set C. tree_key c = tree_key t \<longrightarrow> copy_of t (expand_tree_id o') c"
    and total: "sum_list (map tph (filter (\<lambda>c. tree_key c = tree_key t) C)) = tph t - 50"
  shows "\<exists>r. collapse_loop (o' # Os @ C)
              = r # collapse_loop (Os @ map (\<lambda>c. if tree_key c = tree_key t then mark c else c) C)
            \<and> restored t r"
proof -
  let ?a0 = "o'\<lparr> dbh := dbh o' * tph o', ht := ht o' * tph o', hcb := hcb o' * tph o',
                 cr := cr o' * tph o' \<rparr>"
  let ?F = "filter (\<lambda>c. tree_key c = tree_key t) C"
  obtain a1 r1 where r: "absorb_loop ?a0 (Os @ C) = (a1, r1)" by (cases "absorb_loop ?a0 (Os @ C)")
  have o: "tree_key o' = tree_key t" "dbh o' = dbh t" "ht o' = ht t" "cr o' = cr t"
    "tph o' = 50" "0 < expand_tree_id o'"
    using orig by (simp_all add: expanded_orig_def)
  have mO: "\<forall>x\<in>set Os. \<not> matches ?a0 x"
    using others o(1) by (auto simp: matches_def tree_key_def)
  have mC: "\<forall>c\<in>set C. matches ?a0 c \<longleftrightarrow> tree_key c = tree_key t"
    using copies o(1) by (auto simp: matches_def tree_key_def copy_of_def)
  have fO: "filter (matches ?a0) Os = []" using mO by (rule filter_none)
  have fC: "filter (matches ?a0) C = ?F" using mC by (auto intro: filter_cong)
  have mapO: "map (\<lambda>t. if matches ?a0 t then mark t else t) Os = Os"
    using mO by (simp add: map_idI)
  have mapC: "map (\<lambda>c. if matches ?a0 c then mark c else c) C
              = map (\<lambda>c. if tree_key c = tree_key t then mark c else c) C"
    using mC by (auto intro: map_cong)
  note spec = absorb_loop_spec[OF r]
  have r1: "r1 = Os @ map (\<lambda>c. if tree_key c = tree_key t then mark c else c) C"
    using spec mapO mapC by simp
  have inF: "\<forall>c\<in>set ?F. copy_of t (expand_tree_id o') c" using copies by simp
  have W: "sum_list (map tph ?F) = tph t - 50" by (rule total)
  have W0: "0 \<le> sum_list (map tph ?F)" using W big by simp
  have tph1: "tph a1 = tph t" using spec fO fC W o by simp
  have cr_sum: "sum_list (map (\<lambda>c. cr c * tph c) ?F) = cr t * sum_list (map tph ?F)"
    by (rule weighted_sum_const) (use inF in \<open>simp add: copy_of_def\<close>)
  have cr1: "cr a1 = cr t * tph t" using spec fO fC o cr_sum W by (simp add: algebra_simps)
  have dbh1: "dbh a1 = dbh t * 50 + sum_list (map (\<lambda>c. dbh c * tph c) ?F)"
    using spec fO fC o by simp
  have ht1: "ht a1 = ht t * 50 + sum_list (map (\<lambda>c. ht c * tph c) ?F)"
    using spec fO fC o by simp
  have dbh_b: "\<bar>sum_list (map (\<lambda>c. dbh c * tph c) ?F) - dbh t * sum_list (map tph ?F)\<bar>
               \<le> 0.005 * sum_list (map tph ?F)"
    by (rule weighted_sum_bound) (use inF in \<open>simp add: copy_of_def\<close>)
  have ht_b: "\<bar>sum_list (map (\<lambda>c. ht c * tph c) ?F) - ht t * sum_list (map tph ?F)\<bar>
               \<le> 0.005 * sum_list (map tph ?F)"
    by (rule weighted_sum_bound) (use inF in \<open>simp add: copy_of_def\<close>)
  have T: "tph t = 50 + sum_list (map tph ?F)" using W by simp
  have dbh_r: "\<bar>dbh a1 / tph a1 - dbh t\<bar> \<le> 0.005"
    unfolding dbh1 tph1 T by (rule average_bound[OF dbh_b W0]) simp
  have ht_r: "\<bar>ht a1 / tph a1 - ht t\<bar> \<le> 0.005"
    unfolding ht1 tph1 T by (rule average_bound[OF ht_b W0]) simp
  let ?r = "compute_attributes (a1\<lparr> dbh := dbh a1 / tph a1, ht := ht a1 / tph a1,
                                        hcb := hcb a1 / tph a1, cr := cr a1 / tph a1,
                                        expand_tree_id := 0 \<rparr>)"
  have pos: "0 < tph a1" using tph1 big by simp
  have step: "collapse_loop (o' # Os @ C) = ?r # collapse_loop r1"
    using r o(6) pos by simp
  have keys: "plot_id a1 = plot_id t" "tree_id a1 = tree_id t"
    using spec o(1) by (simp_all add: tree_key_def)
  have "restored t ?r"
    unfolding restored_def using keys tph1 cr1 dbh_r ht_r big by simp
  then show ?thesis using step r1 by blast
qed

lemma collapse_restores:
  assumes "distinct (map tree_key ts0)"
    and "list_all2 (\<lambda>t o'. expanded_ok t o' C) ts0 Os"
    and "\<forall>t\<in>set ts0. expand_tree_id t = 0 \<and> 0 < tph t"
    and "\<forall>c\<in>set C. consumed c \<or> (\<exists>t\<in>set ts0. tree_key c = tree_key t)"
  shows "list_all2 restored ts0 (filter (\<lambda>t. \<not> tph t = 0) (collapse_loop (Os @ C)))"
  using assms
proof (induction ts0 arbitrary: Os C)
  case Nil
  then have "list_all consumed C" "Os = []" by (simp_all add: list_all_iff)
  then have "list_all (\<lambda>t. tph t = 0) (collapse_loop (Os @ C))"
    using collapse_consumed by simp
  then have "filter (\<lambda>t. \<not> tph t = 0) (collapse_loop (Os @ C)) = []"
    by (intro filter_none) (simp add: list_all_iff)
  then show ?case by simp
next
  case (Cons t ts0)
  from Cons.prems(2) obtain o' Os' where Os: "Os = o' # Os'"
    and ok: "expanded_ok t o' C" and oks: "list_all2 (\<lambda>t o'. expanded_ok t o' C) ts0 Os'"
    by (auto simp: list_all2_Cons1)
  have dist: "distinct (map tree_key ts0)" and fresh: "\<forall>x\<in>set ts0. tree_key x \<noteq> tree_key t"
    using Cons.prems(1) by (auto simp: image_iff)
  have others: "\<forall>x\<in>set Os'. tree_key x \<noteq> tree_key t"
  proof
    fix x assume "x \<in> set Os'"
    then obtain q where q: "q < length Os'" "x = Os' ! q" by (auto simp: in_set_conv_nth)
    have len: "length ts0 = length Os'" using oks by (rule list_all2_lengthD)
    have "expanded_ok (ts0 ! q) x C" using list_all2_nthD2[OF oks q(1)] q(2) by simp
    then have "tree_key x = tree_key (ts0 ! q)" by (rule expanded_ok_key)
    moreover have "ts0 ! q \<in> set ts0" using q(1) len by simp
    ultimately show "tree_key x \<noteq> tree_key t" using fresh by auto
  qed
  have props: "\<forall>t\<in>set ts0. expand_tree_id t = 0 \<and> 0 < tph t" "expand_tree_id t = 0" "0 < tph t"
    using Cons.prems(3) by simp_all
  show ?case
  proof (cases "tph t \<le> 50")
    case True
    then have o: "o' = t" and none: "\<forall>c\<in>set C. tree_key c \<noteq> tree_key t"
      using ok by (auto simp: expanded_ok_def)
    have step: "collapse_loop (Os @ C) = t # collapse_loop (Os' @ C)"
      unfolding Os o using props(2) by simp
    have C': "\<forall>c\<in>set C. consumed c \<or> (\<exists>t\<in>set ts0. tree_key c = tree_key t)"
      using Cons.prems(4) none by auto
    have ih: "list_all2 restored ts0 (filter (\<lambda>t. \<not> tph t = 0) (collapse_loop (Os' @ C)))"
      by (rule Cons.IH[OF dist oks props(1) C'])
    have "restored t t" using props(2) by (simp add: restored_def)
    then show ?thesis unfolding step using ih props(3) by simp
  next
    case False
    then have big: "50 < tph t" by simp
    then have orig: "expanded_orig t o'"
      and copies: "\<forall>c\<in>set C. tree_key c = tree_key t \<longrightarrow> copy_of t (expand_tree_id o') c"
      and total: "sum_list (map tph (filter (\<lambda>c. tree_key c = tree_key t) C)) = tph t - 50"
      using ok by (auto simp: expanded_ok_def)
    let ?C' = "map (\<lambda>c. if tree_key c = tree_key t then mark c else c) C"
    from collapse_step_big[OF orig big others copies total]
    obtain r where step: "collapse_loop (Os @ C) = r # collapse_loop (Os' @ ?C')"
      and r: "restored t r" unfolding Os append_Cons by blast
    have oks': "list_all2 (\<lambda>t o'. expanded_ok t o' ?C') ts0 Os'"
    proof (rule list_all2_all_nthI)
      show "length ts0 = length Os'" using oks by (rule list_all2_lengthD)
    next
      fix q assume q: "q < length ts0"
      have "expanded_ok (ts0 ! q) (Os' ! q) C" by (rule list_all2_nthD[OF oks q])
      moreover have "tree_key (ts0 ! q) \<noteq> tree_key t" using fresh q by simp
      ultimately show "expanded_ok (ts0 ! q) (Os' ! q) ?C'" by (rule expanded_ok_mark)
    qed
    have C': "\<forall>c\<in>set ?C'. consumed c \<or> (\<exists>t\<in>set ts0. tree_key c = tree_key t)"
      using Cons.prems(4) by auto
    have ih: "list_all2 restored ts0 (filter (\<lambda>t. \<not> tph t = 0) (collapse_loop (Os' @ ?C')))"
      by (rule Cons.IH[OF dist oks' props(1) C'])
    have "tph r \<noteq> 0" using r props(3) by (simp add: restored_def)
    then show ?thesis unfolding step using ih r by simp
  qed
qed

text \<open>
  Claim C5, amended. Let the records of the stand have pairwise different (plot id,
  tree id), expand id 0 and a positive density below \<open>2 ^ 64\<close>, and let every draw of
  the generator lie in \<open>[-0.005, 0.005]\<close>. Expanding the list with threshold 50 and
  collapsing it at once gives back one record for each original record, in the
  original order, with the same identity, the same density and the same crown
  ratio, and with a diameter and a height that differ from the original ones by
  at most 0.005. (Densities and measurements are reals here, so "the same" is exact.)
\<close>

theorem C5_round_trip_within_jitter:
  assumes jit: "\<forall>n. \<bar>jit n\<bar> \<le> 0.005"
    and keys: "distinct (map tree_key (trees s))"
    and recs: "list_all (\<lambda>t. expand_tree_id t = 0 \<and> 0 < tph t \<and> tph t < 2 ^ 64) (trees s)"
  shows "list_all2 restored (trees s)
           (trees (snd (unexpand_tree_list (snd (expand_tree_list jit 50 s)))))"
proof (cases "length (trees s) = 0")
  case True
  then show ?thesis by (simp add: expand_tree_list_def unexpand_tree_list_def)
next
  case False
  have bound: "\<forall>t\<in>set (trees s). tph t < 2 ^ 64" using recs by (simp add: list_all_iff)
  have props: "\<forall>t\<in>set (trees s). expand_tree_id t = 0 \<and> 0 < tph t"
    using recs by (simp add: list_all_iff)
  from expand_fold[OF jit keys bound order_refl]
  obtain Os C gen where
    st: "foldl (expand_one jit 50) (trees s, 0) [0..<length (trees s)] = (Os @ C, gen)"
    and ok: "list_all2 (\<lambda>t o'. expanded_ok t o' C) (trees s) Os"
    and own: "\<forall>c\<in>set C. \<exists>q<length (trees s). tree_key c = tree_key (trees s ! q)"
    by auto
  have own': "\<forall>c\<in>set C. consumed c \<or> (\<exists>t\<in>set (trees s). tree_key c = tree_key t)"
    using own by (metis nth_mem)
  have "list_all2 restored (trees s) (filter (\<lambda>t. \<not> tph t = 0) (collapse_loop (Os @ C)))"
    by (rule collapse_restores[OF keys ok props own'])
  then show ?thesis
    using False st by (simp add: expand_tree_list_def unexpand_tree_list_def)
qed

theorem C5_round_trip_within_jitter_witness:
  "(\<forall>n. \<bar>steady_jitter n\<bar> \<le> 0.005)
   \<and> distinct (map tree_key (trees dense_stand))
   \<and> list_all (\<lambda>t. expand_tree_id t = 0 \<and> 0 < tph t \<and> tph t < 2 ^ 64) (trees dense_stand)
   \<and> list_all2 restored (trees dense_stand)
        (trees (snd (unexpand_tree_list (snd (expand_tree_list steady_jitter 50 dense_stand)))))"
proof -
  have a: "\<forall>n. \<bar>steady_jitter n\<bar> \<le> 0.005" by (simp add: steady_jitter_def)
  have b: "distinct (map tree_key (trees dense_stand))"
    by (simp add: dense_stand_def tree_key_def fir_tree_def)
  have c: "list_all (\<lambda>t. expand_tree_id t = 0 \<and> 0 < tph t \<and> tph t < 2 ^ 64) (trees dense_stand)"
    by (simp add: dense_stand_def fir_tree_def)
  show ?thesis using C5_round_trip_within_jitter[OF a b c] a b c by simp
qed

text \<open>
  The list of \<open>dense_stand\<close> after the expansion: the first record is untouched, the
  second one is cut to 50 trees per hectare with expand id 2, and one copy with
  expand id 1 carries the other 50 with the diameter and the height moved by the
  two draws.
\<close>

lemma dense_stand_expanded:
  "map (\<lambda>t. (tree_id t, expand_tree_id t, tph t, dbh t, ht t))
       (trees (snd (expand_tree_list steady_jitter 50 dense_stand)))
   = [(1, 0, 40, 10, 8), (2, 2, 50, 10, 8), (2, 1, 50, 10.004, 8.004)]"
  by (simp add: expand_tree_list_def dense_stand_def upt_rec[of 0] upt_rec[of 1] upt_rec[of 2]
      expand_one_def std_trunc_def copies_loop.simps[of _ _ _ _ 0] copies_loop.simps[of _ _ _ _ 1]
      copies_loop.simps[of _ _ _ _ "Suc 0"]
      perturb_def steady_jitter_def fir_tree_def Let_def)

text \<open>
  The claim C5 as stated asks for the same diameter and height up to floating-point
  tolerance. For \<open>dense_stand\<close> and draws of 0.004 the second record comes back
  with diameter 10.002 instead of 10 and height 8.002 instead of 8: the collapse
  averages the original measurements with the perturbed ones of the copy.
\<close>

theorem C5_jitter_counterexample:
  "map dbh (trees dense_stand) = [10, 10]
   \<and> map dbh (trees (snd (unexpand_tree_list (snd (expand_tree_list steady_jitter 50 dense_stand)))))
       = [10, 10.002]
   \<and> map ht (trees dense_stand) = [8, 8]
   \<and> map ht (trees (snd (unexpand_tree_list (snd (expand_tree_list steady_jitter 50 dense_stand)))))
       = [8, 8.002]"
  by (simp add: unexpand_tree_list_def expand_tree_list_def dense_stand_def
      upt_rec[of 0] upt_rec[of 1] upt_rec[of 2]
      expand_one_def std_trunc_def copies_loop.simps[of _ _ _ _ 0] copies_loop.simps[of _ _ _ _ 1]
      copies_loop.simps[of _ _ _ _ "Suc 0"]
      perturb_def steady_jitter_def fir_tree_def Let_def)

end
